theory Spec2Isabelle
  imports Complex_Main
begin

section \<open>Data model\<close>

text \<open>
  Time points and the values of a search array are 64-bit integers: a numpy array of
  \<open>int64\<close>, or of \<open>datetime64[ns]\<close>, which is a count of nanoseconds since the epoch
  (a \<open>timedelta64\<close> is a count of nanoseconds). A value is an \<open>int\<close> between \<open>- 2^63\<close>
  and \<open>2^63 - 1\<close>. Comparison is that of the integers. Subtraction and absolute value
  are numpy's: the result is taken modulo \<open>2^64\<close> into that range, so that a difference
  of \<open>2^63\<close> or more wraps around and the absolute value of \<open>- 2^63\<close> is \<open>- 2^63\<close>.

  The code tests \<open>type(x) == np.ndarray\<close>, so an argument is either a numpy array or some
  other array-like object (a Python list).
\<close>

datatype error = AssertionError | IndexError | KeyError | ValueError | TypeError
  | DatabaseError | ProgrammingError

definition wrap64 :: "int \<Rightarrow> int" where
  "wrap64 x = (x + 9223372036854775808) mod 18446744073709551616 - 9223372036854775808"

definition sub64 :: "int \<Rightarrow> int \<Rightarrow> int" where
  "sub64 x y = wrap64 (x - y)"

definition abs64 :: "int \<Rightarrow> int" where
  "abs64 x = wrap64 \<bar>x\<bar>"

datatype pyobj = NdArray "int list" | PyList "int list"

fun contents :: "pyobj \<Rightarrow> int list" where
  "contents (NdArray xs) = xs"
| "contents (PyList xs) = xs"

section \<open>The numpy operations used by the aligner\<close>

text \<open>
  \<open>np.searchsorted(a, v, side='left')\<close> for a scalar \<open>v\<close> is a binary search between
  \<open>0\<close> and \<open>len(a)\<close>: the middle element is compared with \<open>v\<close>, and the search goes on
  to the right of it when it is smaller than \<open>v\<close>, at or to the left of it otherwise.
  It never reads outside the array and it does not check that \<open>a\<close> is sorted.
\<close>

function binsearch_left :: "int list \<Rightarrow> int \<Rightarrow> nat \<Rightarrow> nat \<Rightarrow> nat" where
  "binsearch_left a v min_idx max_idx =
     (if min_idx < max_idx
      then (let mid_idx = min_idx + (max_idx - min_idx) div 2
            in if a ! mid_idx < v
               then binsearch_left a v (mid_idx + 1) max_idx
               else binsearch_left a v min_idx mid_idx)
      else min_idx)"
  by pat_completeness auto
termination
  by (relation "measure (\<lambda>(a, v, min_idx, max_idx). max_idx - min_idx)") auto

declare binsearch_left.simps [simp del]

definition searchsorted :: "int list \<Rightarrow> int \<Rightarrow> nat" where
  "searchsorted a v = binsearch_left a v 0 (length a)"

text \<open>
  \<open>a[i:j]\<close> for \<open>0 \<le> i \<le> j\<close>: the slice stops at the end of the array when \<open>j\<close> is
  beyond it.
\<close>

definition slice :: "'a list \<Rightarrow> nat \<Rightarrow> nat \<Rightarrow> 'a list" where
  "slice a i j = drop i (take j a)"

text \<open>
  \<open>np.argmin(d)\<close>: the index of the first occurrence of the minimum. On an empty array
  numpy raises \<open>ValueError\<close>; \<open>find_closest\<close> below makes that test before it calls
  \<open>argmin\<close>.
\<close>

fun argmin :: "int list \<Rightarrow> nat" where
  "argmin [] = 0"
| "argmin [d] = 0"
| "argmin (d # ds) = (let j = argmin ds in if ds ! j < d then Suc j else 0)"

text \<open>\<open>np.sort(a, kind='mergesort')\<close> returns a new, ascending numpy array; the input
  may be any array-like object. On integers a stable sort and any other sort give the
  same array.\<close>

definition np_sort :: "pyobj \<Rightarrow> pyobj" where
  "np_sort a = NdArray (sort (contents a))"

section \<open>align\_arrays.py\<close>

definition find_closest :: "pyobj \<Rightarrow> int \<Rightarrow> error + int" where
  "find_closest search_array pivot =
     (case search_array of
        PyList _ \<Rightarrow> Inl AssertionError
      | NdArray a \<Rightarrow>
          (let index = searchsorted a pivot
           in if index \<noteq> 0
              then (let values = slice a (index - 1) (index + 1);
                        distances = map (\<lambda>x. abs64 (sub64 x pivot)) values
                    in if distances = [] then Inl ValueError
                       else Inr (values ! argmin distances))
              else if index < length a then Inr (a ! index) else Inl IndexError))"

definition closest_within_distance :: "pyobj \<Rightarrow> int \<Rightarrow> int \<Rightarrow> error + int option" where
  "closest_within_distance search_array pivot max_dist =
     (case find_closest search_array pivot of
        Inl e \<Rightarrow> Inl e
      | Inr nearest_value \<Rightarrow>
          Inr (if abs64 (sub64 nearest_value pivot) \<le> max_dist
               then Some nearest_value else None))"

text \<open>
  One pass of the loop body of \<open>align_arrays\<close>: without \<open>max_dist\<close> the entry is the
  value \<open>find_closest\<close> returns, with it the optional value of
  \<open>closest_within_distance\<close>.
\<close>

definition align_one :: "pyobj \<Rightarrow> int option \<Rightarrow> int \<Rightarrow> error + int option" where
  "align_one search_array max_dist p =
     (case max_dist of
        None \<Rightarrow> (case find_closest search_array p of Inl e \<Rightarrow> Inl e | Inr v \<Rightarrow> Inr (Some v))
      | Some d \<Rightarrow> closest_within_distance search_array p d)"

text \<open>The loop \<open>for i, p in enumerate(pivot_array): output[i] = ...\<close>; an exception
  leaves the loop at once.\<close>

fun align_loop ::
  "pyobj \<Rightarrow> int option \<Rightarrow> (nat \<times> int) list \<Rightarrow> int option list \<Rightarrow> error + int option list"
where
  "align_loop search_array max_dist [] output = Inr output"
| "align_loop search_array max_dist ((i, p) # rest) output =
     (case align_one search_array max_dist p of
        Inl e \<Rightarrow> Inl e
      | Inr v \<Rightarrow> align_loop search_array max_dist rest (output[i := v]))"

definition align_arrays :: "pyobj \<Rightarrow> pyobj \<Rightarrow> int option \<Rightarrow> error + int option list" where
  "align_arrays search_array pivot_array max_dist =
     (case pivot_array of
        PyList _ \<Rightarrow> Inl AssertionError
      | NdArray ps \<Rightarrow>
          (let output = replicate (length ps) None;
               sorted_array = np_sort search_array
           in align_loop sorted_array max_dist (enumerate 0 ps) output))"

section \<open>generate\_sql\_query.py\<close>

text \<open>\<open>str(n)\<close> for a system number, and \<open>s.lower()\<close> on ASCII text.\<close>

fun str_nat :: "nat \<Rightarrow> string" where
  "str_nat n = (if n < 10 then [char_of (48 + n)]
                else str_nat (n div 10) @ [char_of (48 + n mod 10)])"

declare str_nat.simps [simp del]

definition lower_char :: "char \<Rightarrow> char" where
  "lower_char c = (let n = (of_char c :: nat)
                   in if 65 \<le> n \<and> n \<le> 90 then char_of (n + 32) else c)"

definition generate_engineering_table_name :: "string \<Rightarrow> nat \<Rightarrow> string \<Rightarrow> string" where
  "generate_engineering_table_name station_name system_num start_date =
     (let system_num = replicate (4 - length (str_nat system_num)) (CHR ''0'') @ str_nat system_num
      in ''eng_'' @ system_num @ ''_'' @ map lower_char station_name @ ''_'' @ start_date)"

definition generate_update_sql :: "string \<Rightarrow> string \<Rightarrow> error + string" where
  "generate_update_sql engineering_table_name column_name =
     (if column_name = ''sst'' \<or> column_name = ''sal''
      then Inr (''UPDATE '' @ engineering_table_name @ '' SET '' @ column_name @ '' = %s, ''
                @ column_name @ ''flag = 0 WHERE hdrtime = %s;'')
      else Inl AssertionError)"

text \<open>
  A float of the data frame is a number or NaN; \<open>x > 0\<close> is false for NaN.
\<close>

datatype pyfloat = Float real | NaN

fun positive :: "pyfloat \<Rightarrow> bool" where
  "positive (Float r) = (0 < r)"
| "positive NaN = False"

text \<open>
  The backing store, as the cursor and the connection see it: the answer of the
  \<open>datasetinfo\<close> query for a station and a date range (system number and start date, in
  the order of the query), the names in \<open>information_schema.tables\<close>, the answer of the
  \<open>hdrtime\<close> query for a table and a date range, and the statements executed so far.
  \<open>Execute sql value key\<close> is \<open>cursor.execute(sql, (value, key))\<close>, where the key is the
  text \<open>dtime.strftime('%Y-%m-%d %H:%M:%S')\<close>: the time cut to its whole second.

  An entry of \<open>param_data\<close> is a list of floats: one float when the array of values is
  one-dimensional, a row of the array when it is two-dimensional. The cursor cannot
  adapt a row to an SQL value and raises \<open>ProgrammingError\<close>; what the pass executed
  before is not committed.
\<close>

datatype statement = Execute string pyfloat int | Commit

record database =
  datasetinfo :: "string \<Rightarrow> int \<times> int \<Rightarrow> (nat \<times> string) list"
  tables :: "string list"
  hdrtime :: "string \<Rightarrow> int \<times> int \<Rightarrow> int list"
  executed :: "statement list"

definition strftime :: "int \<Rightarrow> int" where
  "strftime dtime = dtime div 1000000000"

fun execute_all :: "database \<Rightarrow> string \<Rightarrow> (int \<times> pyfloat list) list \<Rightarrow> error + database" where
  "execute_all cursor sql_update_str [] = Inr cursor"
| "execute_all cursor sql_update_str ((dtime, value) # rest) =
     (case value of
        [v] \<Rightarrow> execute_all
                 (cursor\<lparr>executed := executed cursor
                           @ [Execute sql_update_str v (strftime dtime)]\<rparr>)
                 sql_update_str rest
      | _ \<Rightarrow> Inl ProgrammingError)"

definition run_update_sql ::
  "database \<Rightarrow> string \<Rightarrow> int list \<Rightarrow> pyfloat list list \<Rightarrow> error + database"
where
  "run_update_sql cursor sql_update_str dtimes param_data =
     execute_all cursor sql_update_str (zip dtimes param_data)"

section \<open>external\_data\_to\_database.py\<close>

definition parameter_mapping :: "(string \<times> string) list" where
  "parameter_mapping = [(''sst'', ''sst''), (''sss'', ''sal''), (''sal'', ''sal'')]"

text \<open>
  A data frame: its parameter columns, and its rows in order. A row is its index label,
  which is also its \<open>datetime\<close> (\<open>ndbc_file_to_dataframe\<close> sets
  \<open>df.index = df['datetime']\<close>), and its cells by column name.
\<close>

record dataframe =
  columns :: "string list"
  rows :: "(int \<times> (string \<Rightarrow> pyfloat)) list"

record metadata =
  Station :: string
  Parameter :: "string list"
  Date_Range :: "int \<times> int"
  Engineering_Tables :: "string list"

record DatabaseUploader =
  conn :: database
  testing :: bool

text \<open>\<open>np.timedelta64(n, 'm')\<close>, in nanoseconds.\<close>

definition minutes :: "int \<Rightarrow> int" where
  "minutes n = n * 60000000000"

text \<open>
  Truth value of an entry of the alignment result, as \<open>if atime\<close> and \<open>if dtime\<close>
  take it: \<open>None\<close> is false, and numpy takes the truth value of a \<open>datetime64\<close> from
  the integer it stores, so that the zero of the type (the epoch) is false and every
  other time stamp is true.
\<close>

fun truthy :: "int option \<Rightarrow> bool" where
  "truthy None = False"
| "truthy (Some t) = (t \<noteq> 0)"

definition get_date_range :: "dataframe \<Rightarrow> error + int \<times> int" where
  "get_date_range data =
     (if rows data = [] then Inl IndexError
      else (let start_date = fst (rows data ! 0);
                end_date = fst (rows data ! (length (rows data) - 1)) + minutes 10
            in Inr (start_date, end_date)))"

text \<open>
  \<open>for eng_table in engineering_tables: ... engineering_tables.remove(eng_table)\<close>:
  the list iterator holds an index into the list it iterates, and \<open>remove\<close> deletes the
  first equal element of that same list.
\<close>

function existence_loop :: "database \<Rightarrow> string list \<Rightarrow> nat \<Rightarrow> string list" where
  "existence_loop cur engineering_tables i =
     (if i < length engineering_tables
      then (let eng_table = engineering_tables ! i;
                engExists = (eng_table \<in> set (tables cur))
            in if \<not> engExists
               then existence_loop cur (remove1 eng_table engineering_tables) (Suc i)
               else existence_loop cur engineering_tables (Suc i))
      else engineering_tables)"
  by pat_completeness auto
termination
proof (relation "measure (\<lambda>(cur, engineering_tables, i). length engineering_tables - i)")
  show "wf (measure (\<lambda>(cur, engineering_tables, i). length engineering_tables - i))"
    by simp
next
  fix cur :: database and engineering_tables :: "string list" and i :: nat
    and x :: string and xa :: bool
  assume "i < length engineering_tables" and "x = engineering_tables ! i"
  then show "((cur, remove1 x engineering_tables, Suc i), (cur, engineering_tables, i))
             \<in> measure (\<lambda>(cur, engineering_tables, i). length engineering_tables - i)"
    by (simp add: length_remove1)
next
  fix cur :: database and engineering_tables :: "string list" and i :: nat
    and x :: string and xa :: bool
  assume "i < length engineering_tables"
  then show "((cur, engineering_tables, Suc i), (cur, engineering_tables, i))
             \<in> measure (\<lambda>(cur, engineering_tables, i). length engineering_tables - i)"
    by simp
qed

declare existence_loop.simps [simp del]

definition test_for_eng_table_existence :: "database \<Rightarrow> string list \<Rightarrow> string list" where
  "test_for_eng_table_existence cur engineering_tables = existence_loop cur engineering_tables 0"

definition get_engineering_table_names :: "database \<Rightarrow> string \<Rightarrow> int \<times> int \<Rightarrow> string list" where
  "get_engineering_table_names cur station_name date_range =
     (let query_results = datasetinfo cur station_name date_range;
          engineering_tables =
            map (\<lambda>(system_num, start_date).
                   generate_engineering_table_name station_name system_num start_date)
                query_results
      in test_for_eng_table_existence cur engineering_tables)"

text \<open>
  The \<open>hdrtime\<close> query fails in the store when the table does not exist. With no header
  time in the answer, \<open>pd.Series([])\<close> is a series of floats (pandas before 2.0), and
  adding a \<open>timedelta64\<close> to it raises \<open>TypeError\<close>. The pivots are the header times
  moved forward by 17 minutes, the search array the \<open>datetime\<close> column of the data, the
  tolerance 20 minutes.
\<close>

definition get_hdrtimes_and_aligned_times ::
  "database \<Rightarrow> string \<Rightarrow> int \<times> int \<Rightarrow> dataframe \<Rightarrow> error + int list \<times> int option list"
where
  "get_hdrtimes_and_aligned_times cur eng_table date_range data =
     (if eng_table \<notin> set (tables cur) then Inl DatabaseError
      else (let hdrtimes = hdrtime cur eng_table date_range;
                adjusted_hdrtimes = map (\<lambda>h. h + minutes 17) hdrtimes
            in if hdrtimes = [] then Inl TypeError
               else case align_arrays (NdArray (map fst (rows data))) (NdArray adjusted_hdrtimes)
                                 (Some (minutes 20)) of
                 Inl e \<Rightarrow> Inl e
               | Inr aligned_dates \<Rightarrow> Inr (hdrtimes, aligned_dates)))"

text \<open>
  \<open>sub_data[p][dtime]\<close>: the cells of column \<open>p\<close> in the rows labelled \<open>dtime\<close>. A label
  that is absent is a \<open>KeyError\<close>. A label that one row carries selects a number, here
  a list of one float; a label that several rows carry selects a series of their cells.
\<close>

definition series_loc :: "dataframe \<Rightarrow> string \<Rightarrow> int \<Rightarrow> error + pyfloat list" where
  "series_loc sub_data p dtime =
     (case filter (\<lambda>r. fst r = dtime) (rows sub_data) of
        [] \<Rightarrow> Inl KeyError
      | rs \<Rightarrow> Inr (map (\<lambda>r. snd r p) rs))"

text \<open>
  \<open>np.array(xs).astype(float)\<close> on a list of such selections: numbers give a
  one-dimensional array, series of one length a two-dimensional one, and anything else
  is ragged and raises \<open>ValueError\<close>.
\<close>

definition array_astype_float :: "pyfloat list list \<Rightarrow> error + pyfloat list list" where
  "array_astype_float xs =
     (if \<forall>x\<in>set xs. length x = length (hd xs) then Inr xs else Inl ValueError)"

text \<open>A list comprehension whose element expression may raise.\<close>

fun comprehension :: "('a \<Rightarrow> error + 'b) \<Rightarrow> 'a list \<Rightarrow> error + 'b list" where
  "comprehension f [] = Inr []"
| "comprehension f (x # xs) =
     (case f x of
        Inl e \<Rightarrow> Inl e
      | Inr y \<Rightarrow> (case comprehension f xs of Inl e \<Rightarrow> Inl e | Inr ys \<Rightarrow> Inr (y # ys)))"

definition commit :: "database \<Rightarrow> database" where
  "commit c = c\<lparr>executed := executed c @ [Commit]\<rparr>"

text \<open>\<open>data[(data[p] > 0)]\<close>: the rows whose cell in column \<open>p\<close> is greater than 0,
  in their order.\<close>

definition boolean_mask :: "dataframe \<Rightarrow> string \<Rightarrow> dataframe" where
  "boolean_mask data p = data\<lparr>rows := filter (\<lambda>r. positive (snd r p)) (rows data)\<rparr>"

text \<open>
  The key and value lists of one pass of the inner loop of \<open>update_table\<close>, for one
  table and one parameter, as they are handed to \<open>run_update_sql\<close>.
\<close>

definition update_lists ::
  "database \<Rightarrow> dataframe \<Rightarrow> int \<times> int \<Rightarrow> string \<Rightarrow> string
   \<Rightarrow> error + int list \<times> pyfloat list list"
where
  "update_lists cur data date_range eng_table p =
     (if p \<notin> set (columns data) then Inl KeyError
      else (let sub_data = boolean_mask data p
            in case get_hdrtimes_and_aligned_times cur eng_table date_range sub_data of
                 Inl e \<Rightarrow> Inl e
               | Inr (hdrtimes, aligned_dates) \<Rightarrow>
                   (let hdrtimes_to_update =
                          map fst (filter (\<lambda>(htime, atime). truthy atime)
                                          (zip hdrtimes aligned_dates))
                    in case comprehension (\<lambda>dtime. series_loc sub_data p (the dtime))
                                          (filter truthy aligned_dates) of
                         Inl e \<Rightarrow> Inl e
                       | Inr selections \<Rightarrow>
                           (case array_astype_float selections of
                              Inl e \<Rightarrow> Inl e
                            | Inr param_data_to_update \<Rightarrow>
                                Inr (hdrtimes_to_update, param_data_to_update)))))"

text \<open>One pass of the inner loop: the lists, the update statement, the updates, the
  commit. An exception leaves the store as it was before the pass.\<close>

definition update_unit ::
  "database \<Rightarrow> dataframe \<Rightarrow> int \<times> int \<Rightarrow> string \<Rightarrow> string \<Rightarrow> error + database"
where
  "update_unit cur data date_range eng_table p =
     (case update_lists cur data date_range eng_table p of
        Inl e \<Rightarrow> Inl e
      | Inr (hdrtimes_to_update, param_data_to_update) \<Rightarrow>
          (case map_of parameter_mapping p of
             None \<Rightarrow> Inl KeyError
           | Some column \<Rightarrow>
               (case generate_update_sql eng_table column of
                  Inl e \<Rightarrow> Inl e
                | Inr update_sql \<Rightarrow>
                    (case run_update_sql cur update_sql
                            hdrtimes_to_update param_data_to_update of
                       Inl e \<Rightarrow> Inl e
                     | Inr cur' \<Rightarrow> Inr (commit cur')))))"

text \<open>The two nested loops. Their result is the exception that ended them, if any, and
  the store as the passes before it left it.\<close>

fun parameters_loop ::
  "database \<Rightarrow> dataframe \<Rightarrow> int \<times> int \<Rightarrow> string \<Rightarrow> string list \<Rightarrow> error option \<times> database"
where
  "parameters_loop cur data date_range eng_table [] = (None, cur)"
| "parameters_loop cur data date_range eng_table (p # ps) =
     (case update_unit cur data date_range eng_table p of
        Inl e \<Rightarrow> (Some e, cur)
      | Inr cur' \<Rightarrow> parameters_loop cur' data date_range eng_table ps)"

fun tables_loop ::
  "database \<Rightarrow> dataframe \<Rightarrow> int \<times> int \<Rightarrow> string list \<Rightarrow> string list \<Rightarrow> error option \<times> database"
where
  "tables_loop cur data date_range [] parameters = (None, cur)"
| "tables_loop cur data date_range (eng_table # ts) parameters =
     (case parameters_loop cur data date_range eng_table parameters of
        (Some e, cur') \<Rightarrow> (Some e, cur')
      | (None, cur') \<Rightarrow> tables_loop cur' data date_range ts parameters)"

definition update_table ::
  "DatabaseUploader \<Rightarrow> dataframe \<Rightarrow> string \<Rightarrow> string list \<Rightarrow> bool
   \<Rightarrow> (error + metadata) \<times> DatabaseUploader"
where
  "update_table self data station_name parameters test_copy_upload =
     (case get_date_range data of
        Inl e \<Rightarrow> (Inl e, self)
      | Inr date_range \<Rightarrow>
          (let engineering_tables = get_engineering_table_names (conn self) station_name date_range
           in case tables_loop (conn self) data date_range engineering_tables parameters of
                (Some e, cur') \<Rightarrow> (Inl e, self\<lparr>conn := cur'\<rparr>)
              | (None, cur') \<Rightarrow>
                  (case comprehension
                          (\<lambda>p. case map_of parameter_mapping p of
                                  None \<Rightarrow> Inl KeyError | Some c \<Rightarrow> Inr c)
                          parameters of
                     Inl e \<Rightarrow> (Inl e, self\<lparr>conn := cur'\<rparr>)
                   | Inr names \<Rightarrow>
                       (Inr \<lparr>Station = station_name, Parameter = names,
                             Date_Range = date_range,
                             Engineering_Tables = engineering_tables\<rparr>,
                        self\<lparr>conn := cur'\<rparr>))))"

section \<open>A store and a sensor series to run the code on\<close>

text \<open>
  One system of the station SOFS with the header times 100, 101 and 500 minutes (after
  the epoch), and a sensor series with a sample 17 minutes after the first header time.
  The first sample has a valid temperature and no valid salinity, the second one a valid
  temperature and no salinity at all.
\<close>

definition example_cells :: "string \<Rightarrow> pyfloat" where
  "example_cells c = (if c = ''sst'' then Float 5.2 else Float (- 1))"

definition example_store :: database where
  "example_store =
     \<lparr>datasetinfo = (\<lambda>station_name date_range. [(1, ''20200101'')]),
      tables = [''eng_0001_sofs_20200101''],
      hdrtime = (\<lambda>eng_table date_range. [minutes 100, minutes 101, minutes 500]),
      executed = []\<rparr>"

definition example_data :: dataframe where
  "example_data =
     \<lparr>columns = [''sst'', ''sss''],
      rows = [(minutes 117, example_cells),
              (minutes 300, (\<lambda>c. if c = ''sst'' then Float 6 else NaN))]\<rparr>"

text \<open>The same store with three systems resolved for the station, of which only the
  table of the third exists.\<close>

definition example_store_missing :: database where
  "example_store_missing =
     \<lparr>datasetinfo = (\<lambda>station_name date_range.
                       [(1, ''20200101''), (2, ''20200201''), (3, ''20200301'')]),
      tables = [''eng_0003_sofs_20200301''],
      hdrtime = (\<lambda>eng_table date_range. [minutes 100, minutes 101, minutes 500]),
      executed = []\<rparr>"



section \<open>Notions of the specification\<close>

text \<open>
  The distance from a pivot to its nearest element of an array, which the claims about
  the tolerance compare with \<open>max_dist\<close>. It is not part of the code.
\<close>

definition nearest_distance :: "int list \<Rightarrow> int \<Rightarrow> int" where
  "nearest_distance a p = Min ((\<lambda>x. \<bar>x - p\<bar>) ` set a)"

text \<open>
  No difference between an element of the array and the pivot leaves the 64-bit range:
  the condition under which numpy's \<open>abs(values - pivot)\<close> is the distance.
\<close>

definition no_overflow :: "int list \<Rightarrow> int \<Rightarrow> bool" where
  "no_overflow a p = (\<forall>x\<in>set a. \<bar>x - p\<bar> < 9223372036854775808)"

text \<open>
  The matched pairs of an alignment: the header times whose entry in the alignment
  result is not \<open>None\<close>, each with its entry, in the order of the header times.
\<close>

definition matched_pairs :: "int list \<Rightarrow> int option list \<Rightarrow> (int \<times> int option) list" where
  "matched_pairs hdrtimes aligned_dates =
     filter (\<lambda>(htime, atime). atime \<noteq> None) (zip hdrtimes aligned_dates)"

section \<open>Arithmetic modulo \<open>2^64\<close>\<close>

lemma wrap64_range:
  "- 9223372036854775808 \<le> wrap64 x" "wrap64 x < 9223372036854775808"
  by (simp_all add: wrap64_def)

lemma wrap64_shift: "wrap64 (w + k * 18446744073709551616) = wrap64 w"
proof -
  have "w + k * 18446744073709551616 + 9223372036854775808
        = (w + 9223372036854775808) + k * 18446744073709551616"
    by simp
  then have "(w + k * 18446744073709551616 + 9223372036854775808) mod 18446744073709551616
        = (w + 9223372036854775808) mod 18446744073709551616"
    by (simp only: mod_mult_self1)
  then show ?thesis by (simp only: wrap64_def)
qed

lemma wrap64_id:
  "- 9223372036854775808 \<le> x \<Longrightarrow> x < 9223372036854775808 \<Longrightarrow> wrap64 x = x"
  by (simp add: wrap64_def)

lemma wrap64_decompose: "\<exists>k. x = wrap64 x + k * 18446744073709551616"
proof -
  have "x + 9223372036854775808 =
        (x + 9223372036854775808) div 18446744073709551616 * 18446744073709551616
        + (x + 9223372036854775808) mod 18446744073709551616"
    by simp
  then have "x = wrap64 x + ((x + 9223372036854775808) div 18446744073709551616) * 18446744073709551616"
    unfolding wrap64_def by linarith
  then show ?thesis by blast
qed

lemma abs64_wrap64_minus: "abs64 (wrap64 (- d)) = abs64 (wrap64 d)"
proof -
  obtain k where k: "d = wrap64 d + k * 18446744073709551616"
    using wrap64_decompose by blast
  show ?thesis
  proof (cases "wrap64 d = - 9223372036854775808")
    case True
    have "- d = - 9223372036854775808 + (1 - k) * 18446744073709551616"
      using k True by (simp add: algebra_simps)
    then have "wrap64 (- d) = wrap64 (- 9223372036854775808)"
      using wrap64_shift [of "- 9223372036854775808" "1 - k"] by simp
    then have "wrap64 (- d) = - 9223372036854775808" by (simp add: wrap64_id)
    then show ?thesis using True by simp
  next
    case False
    have "- d = - wrap64 d + (- k) * 18446744073709551616"
      using k by (simp add: algebra_simps)
    then have "wrap64 (- d) = wrap64 (- wrap64 d)"
      using wrap64_shift [of "- wrap64 d" "- k"] by simp
    moreover have "wrap64 (- wrap64 d) = - wrap64 d"
      using wrap64_range [of d] False by (intro wrap64_id) simp_all
    ultimately show ?thesis by (simp add: abs64_def)
  qed
qed

lemma distance64_tie:
  assumes "\<bar>x - p\<bar> = \<bar>y - p\<bar>"
  shows "abs64 (sub64 x p) = abs64 (sub64 y p)"
proof -
  have "x - p = y - p \<or> x - p = - (y - p)" using assms by linarith
  then show ?thesis
  proof
    assume "x - p = y - p"
    then show ?thesis by (simp add: sub64_def)
  next
    assume "x - p = - (y - p)"
    then show ?thesis using abs64_wrap64_minus [of "y - p"] by (simp add: sub64_def)
  qed
qed

lemma distance64_exact:
  assumes "\<bar>x - p\<bar> < 9223372036854775808"
  shows "abs64 (sub64 x p) = \<bar>x - p\<bar>"
proof -
  have "wrap64 (x - p) = x - p" using assms by (intro wrap64_id) linarith+
  moreover have "wrap64 \<bar>x - p\<bar> = \<bar>x - p\<bar>" using assms by (intro wrap64_id) linarith+
  ultimately show ?thesis by (simp add: sub64_def abs64_def)
qed

section \<open>Binary search, the window and the loop of the aligner\<close>

lemma binsearch_left_bounds:
  "min_idx \<le> max_idx \<Longrightarrow>
   min_idx \<le> binsearch_left a v min_idx max_idx \<and> binsearch_left a v min_idx max_idx \<le> max_idx"
proof (induction a v min_idx max_idx rule: binsearch_left.induct)
  case (1 a v min_idx max_idx)
  show ?case
  proof (cases "min_idx < max_idx")
    case False
    then show ?thesis using "1.prems" by (simp add: binsearch_left.simps)
  next
    case True
    define mid where "mid = min_idx + (max_idx - min_idx) div 2"
    have mid: "min_idx \<le> mid" "mid < max_idx" using True by (auto simp: mid_def)
    show ?thesis
    proof (cases "a ! mid < v")
      case lt: True
      have "mid + 1 \<le> binsearch_left a v (mid + 1) max_idx \<and>
            binsearch_left a v (mid + 1) max_idx \<le> max_idx"
        using "1.IH"(1) [OF True mid_def lt] mid by simp
      moreover have "binsearch_left a v min_idx max_idx = binsearch_left a v (mid + 1) max_idx"
        using True lt by (subst binsearch_left.simps) (simp add: mid_def Let_def)
      ultimately show ?thesis using mid by simp
    next
      case ge: False
      have "min_idx \<le> binsearch_left a v min_idx mid \<and> binsearch_left a v min_idx mid \<le> mid"
        using "1.IH"(2) [OF True mid_def ge] mid by simp
      moreover have "binsearch_left a v min_idx max_idx = binsearch_left a v min_idx mid"
        using True ge by (subst binsearch_left.simps) (simp add: mid_def Let_def)
      ultimately show ?thesis using mid by simp
    qed
  qed
qed

lemma searchsorted_le_length: "searchsorted a v \<le> length a"
  using binsearch_left_bounds [of 0 "length a" a v] by (simp add: searchsorted_def)

lemma binsearch_left_sorted:
  "sorted a \<Longrightarrow> min_idx \<le> max_idx \<Longrightarrow> max_idx \<le> length a \<Longrightarrow>
   (\<forall>i<min_idx. a ! i < v) \<Longrightarrow> (\<forall>i. max_idx \<le> i \<and> i < length a \<longrightarrow> v \<le> a ! i) \<Longrightarrow>
   (\<forall>i<binsearch_left a v min_idx max_idx. a ! i < v) \<and>
   (\<forall>i. binsearch_left a v min_idx max_idx \<le> i \<and> i < length a \<longrightarrow> v \<le> a ! i)"
proof (induction a v min_idx max_idx rule: binsearch_left.induct)
  case (1 a v min_idx max_idx)
  show ?case
  proof (cases "min_idx < max_idx")
    case False
    then have "binsearch_left a v min_idx max_idx = min_idx"
      by (simp add: binsearch_left.simps)
    moreover have "min_idx = max_idx" using False "1.prems"(2) by simp
    ultimately show ?thesis using "1.prems" by simp
  next
    case True
    define mid where "mid = min_idx + (max_idx - min_idx) div 2"
    have mid: "min_idx \<le> mid" "mid < max_idx" using True by (auto simp: mid_def)
    show ?thesis
    proof (cases "a ! mid < v")
      case lt: True
      have below: "\<forall>i<mid + 1. a ! i < v"
      proof (intro allI impI)
        fix i assume "i < mid + 1"
        then have "a ! i \<le> a ! mid"
          using "1.prems"(1,3) mid by (simp add: sorted_nth_mono)
        then show "a ! i < v" using lt by simp
      qed
      have eq: "binsearch_left a v min_idx max_idx = binsearch_left a v (mid + 1) max_idx"
        using True lt by (subst binsearch_left.simps) (simp add: mid_def Let_def)
      show ?thesis
        unfolding eq
        using "1.IH"(1) [OF True mid_def lt "1.prems"(1) _ "1.prems"(3) below "1.prems"(5)] mid
        by simp
    next
      case ge: False
      have above: "\<forall>i. mid \<le> i \<and> i < length a \<longrightarrow> v \<le> a ! i"
      proof (intro allI impI)
        fix i assume "mid \<le> i \<and> i < length a"
        then have "a ! mid \<le> a ! i"
          using "1.prems"(1) by (simp add: sorted_nth_mono)
        then show "v \<le> a ! i" using ge by simp
      qed
      have eq: "binsearch_left a v min_idx max_idx = binsearch_left a v min_idx mid"
        using True ge by (subst binsearch_left.simps) (simp add: mid_def Let_def)
      show ?thesis
        unfolding eq
        using "1.IH"(2) [OF True mid_def ge "1.prems"(1) _ _ "1.prems"(4) above] mid "1.prems"(3)
        by simp
    qed
  qed
qed

lemma searchsorted_sorted:
  assumes "sorted a"
  shows "\<forall>i<searchsorted a v. a ! i < v"
    and "\<forall>i. searchsorted a v \<le> i \<and> i < length a \<longrightarrow> v \<le> a ! i"
  using binsearch_left_sorted [OF assms, of 0 "length a" v] by (simp_all add: searchsorted_def)

lemma slice_pair:
  "Suc j < length a \<Longrightarrow> slice a j (Suc (Suc j)) = [a ! j, a ! Suc j]"
proof -
  assume h: "Suc j < length a"
  then have "drop j (take (Suc (Suc j)) a) = a ! j # drop (Suc j) (take (Suc (Suc j)) a)"
    by (simp add: Cons_nth_drop_Suc [symmetric])
  also have "drop (Suc j) (take (Suc (Suc j)) a) = a ! Suc j # drop (Suc (Suc j)) (take (Suc (Suc j)) a)"
    using h by (simp add: Cons_nth_drop_Suc [symmetric])
  finally show ?thesis by (simp add: slice_def)
qed

lemma slice_last:
  "Suc j = length a \<Longrightarrow> slice a j (Suc (Suc j)) = [a ! j]"
proof -
  assume h: "Suc j = length a"
  then have "drop j (take (Suc (Suc j)) a) = a ! j # drop (Suc j) (take (Suc (Suc j)) a)"
    by (simp add: Cons_nth_drop_Suc [symmetric])
  then show ?thesis using h by (simp add: slice_def)
qed

lemma find_closest_first:
  "a \<noteq> [] \<Longrightarrow> searchsorted a p = 0 \<Longrightarrow> find_closest (NdArray a) p = Inr (a ! 0)"
  by (simp add: find_closest_def)

lemma find_closest_inner:
  "searchsorted a p = Suc j \<Longrightarrow> Suc j < length a \<Longrightarrow>
   find_closest (NdArray a) p =
     Inr (if abs64 (sub64 (a ! Suc j) p) < abs64 (sub64 (a ! j) p) then a ! Suc j else a ! j)"
  by (simp add: find_closest_def slice_pair Let_def)

lemma find_closest_beyond:
  assumes "searchsorted a p = Suc j" and "Suc j = length a"
  shows "find_closest (NdArray a) p = Inr (a ! j)"
proof -
  have "slice a j (Suc (Suc j)) = [a ! j]"
    by (rule slice_last [OF assms(2)])
  then show ?thesis
    by (simp add: find_closest_def assms(1) Let_def)
qed

lemma find_closest_total:
  assumes "a \<noteq> []"
  shows "\<exists>v. find_closest (NdArray a) p = Inr v \<and> v \<in> set a"
proof (cases "searchsorted a p")
  case 0
  then show ?thesis using find_closest_first [OF assms] assms by simp
next
  case (Suc j)
  have le: "Suc j \<le> length a" using searchsorted_le_length [of a p] Suc by simp
  show ?thesis
  proof (cases "Suc j < length a")
    case True
    then show ?thesis using find_closest_inner [OF Suc True] by simp
  next
    case False
    then have eq: "Suc j = length a" using le by simp
    then show ?thesis using find_closest_beyond [OF Suc eq] by simp
  qed
qed

lemma find_closest_empty: "find_closest (NdArray []) p = Inl IndexError"
  by (simp add: find_closest_def searchsorted_def binsearch_left.simps)

lemma align_loop_enumerate:
  "\<forall>p\<in>set ps. \<exists>v. align_one s d p = Inr v \<Longrightarrow> k + length ps \<le> length out \<Longrightarrow>
   \<exists>ys. align_loop s d (enumerate k ps) out = Inr ys \<and> length ys = length out \<and>
        (\<forall>i<length ps. align_one s d (ps ! i) = Inr (ys ! (k + i))) \<and>
        (\<forall>i<k. ys ! i = out ! i)"
proof (induction ps arbitrary: k out)
  case Nil
  then show ?case by simp
next
  case (Cons p ps)
  obtain v where v: "align_one s d p = Inr v" using Cons.prems(1) by auto
  have "\<exists>ys. align_loop s d (enumerate (Suc k) ps) (out[k := v]) = Inr ys \<and>
          length ys = length (out[k := v]) \<and>
          (\<forall>i<length ps. align_one s d (ps ! i) = Inr (ys ! (Suc k + i))) \<and>
          (\<forall>i<Suc k. ys ! i = out[k := v] ! i)"
    using Cons.prems by (intro Cons.IH) auto
  then obtain ys where ys: "align_loop s d (enumerate (Suc k) ps) (out[k := v]) = Inr ys"
      "length ys = length out"
      "\<forall>i<length ps. align_one s d (ps ! i) = Inr (ys ! (Suc k + i))"
      "\<forall>i<Suc k. ys ! i = out[k := v] ! i"
    by auto
  have r: "align_loop s d (enumerate k (p # ps)) out = Inr ys"
    by (simp add: v ys(1))
  have yk: "ys ! k = v" using ys(4) Cons.prems(2) by simp
  have body: "align_one s d ((p # ps) ! i) = Inr (ys ! (k + i))" if "i < length (p # ps)" for i
  proof (cases i)
    case 0
    then show ?thesis using v yk by simp
  next
    case (Suc n)
    then show ?thesis using ys(3) that by simp
  qed
  have keep: "ys ! i = out ! i" if "i < k" for i
    using ys(4) that by simp
  show ?case using r ys(2) body keep by blast
qed

lemma align_loop_length:
  "align_loop s d xs out = Inr ys \<Longrightarrow> length ys = length out"
proof (induction xs arbitrary: out)
  case Nil
  then show ?case by simp
next
  case (Cons x xs)
  obtain i p where x: "x = (i, p)" by (cases x)
  show ?case
  proof (cases "align_one s d p")
    case (Inl e)
    then show ?thesis using Cons.prems x by simp
  next
    case (Inr v)
    then have "align_loop s d xs (out[i := v]) = Inr ys" using Cons.prems x by simp
    then have "length ys = length (out[i := v])" by (rule Cons.IH)
    then show ?thesis by simp
  qed
qed

lemma align_arrays_length:
  "align_arrays S (NdArray P) d = Inr ys \<Longrightarrow> length ys = length P"
  using align_loop_length [of "np_sort S" d "enumerate 0 P" "replicate (length P) None" ys]
  by (simp add: align_arrays_def)

lemma align_arrays_empty_search:
  assumes "contents S = []" and "ps \<noteq> []"
  shows "align_arrays S (NdArray ps) max_dist = Inl IndexError"
proof -
  obtain p ps' where ps: "ps = p # ps'" using assms(2) by (cases ps) auto
  have one: "align_one (NdArray []) max_dist p = Inl IndexError"
    by (cases max_dist) (simp_all add: align_one_def closest_within_distance_def find_closest_empty)
  have "enumerate 0 ps = (0, p) # enumerate 1 ps'" by (simp add: ps)
  then show ?thesis
    using one assms(1) by (simp add: align_arrays_def np_sort_def)
qed

lemma nearest_distanceI:
  assumes "v \<in> set a" and "\<forall>x\<in>set a. \<bar>v - p\<bar> \<le> \<bar>x - p\<bar>"
  shows "nearest_distance a p = \<bar>v - p\<bar>"
  unfolding nearest_distance_def
proof (rule Min_eqI)
  show "finite ((\<lambda>x. \<bar>x - p\<bar>) ` set a)" by simp
  show "\<And>y. y \<in> (\<lambda>x. \<bar>x - p\<bar>) ` set a \<Longrightarrow> \<bar>v - p\<bar> \<le> y" using assms(2) by auto
  show "\<bar>v - p\<bar> \<in> (\<lambda>x. \<bar>x - p\<bar>) ` set a" using assms(1) by auto
qed

section \<open>find\_closest returns a nearest element\<close>

lemma find_closest_sorted:
  assumes "sorted a" and "a \<noteq> []" and "no_overflow a p"
  shows "\<exists>v. find_closest (NdArray a) p = Inr v \<and> v \<in> set a \<and> (\<forall>x\<in>set a. \<bar>v - p\<bar> \<le> \<bar>x - p\<bar>)"
proof -
  define k where "k = searchsorted a p"
  have below: "\<And>i. i < k \<Longrightarrow> a ! i < p"
    using searchsorted_sorted(1) [OF assms(1), of p] by (simp add: k_def)
  have above: "\<And>i. k \<le> i \<Longrightarrow> i < length a \<Longrightarrow> p \<le> a ! i"
    using searchsorted_sorted(2) [OF assms(1), of p] by (simp add: k_def)
  have kle: "k \<le> length a" by (simp add: k_def searchsorted_le_length)
  show ?thesis
  proof (cases k)
    case 0
    have r: "find_closest (NdArray a) p = Inr (a ! 0)"
      using find_closest_first [OF assms(2)] 0 by (simp add: k_def)
    have "\<bar>a ! 0 - p\<bar> \<le> \<bar>x - p\<bar>" if xa: "x \<in> set a" for x
    proof -
      obtain i where i: "i < length a" "x = a ! i" using xa by (auto simp: in_set_conv_nth)
      have "a ! 0 \<le> a ! i" using assms(1) i(1) by (simp add: sorted_nth_mono)
      moreover have "p \<le> a ! 0" using above [of 0] 0 assms(2) by simp
      ultimately show ?thesis using i(2) by simp
    qed
    then show ?thesis using r assms(2) by simp
  next
    case (Suc j)
    have sj: "searchsorted a p = Suc j" using Suc by (simp add: k_def)
    have lo: "\<bar>a ! j - p\<bar> \<le> \<bar>a ! i - p\<bar>" if "i < Suc j" for i
    proof -
      have "a ! i \<le> a ! j" using assms(1) that kle Suc by (simp add: sorted_nth_mono)
      moreover have "a ! j < p" using below [of j] Suc by simp
      ultimately show ?thesis by simp
    qed
    show ?thesis
    proof (cases "Suc j < length a")
      case True
      have hi: "\<bar>a ! Suc j - p\<bar> \<le> \<bar>a ! i - p\<bar>" if "Suc j \<le> i" "i < length a" for i
      proof -
        have "a ! Suc j \<le> a ! i" using assms(1) that by (simp add: sorted_nth_mono)
        moreover have "p \<le> a ! Suc j" using above [of "Suc j"] Suc True by simp
        ultimately show ?thesis by simp
      qed
      define v where "v = (if \<bar>a ! Suc j - p\<bar> < \<bar>a ! j - p\<bar> then a ! Suc j else a ! j)"
      have "a ! j \<in> set a" "a ! Suc j \<in> set a" using True by simp_all
      then have "abs64 (sub64 (a ! j) p) = \<bar>a ! j - p\<bar>"
          "abs64 (sub64 (a ! Suc j) p) = \<bar>a ! Suc j - p\<bar>"
        using assms(3) by (simp_all add: no_overflow_def distance64_exact)
      then have r: "find_closest (NdArray a) p = Inr v"
        using find_closest_inner [OF sj True] by (simp add: v_def)
      have mem: "v \<in> set a" using True by (simp add: v_def)
      have "\<bar>v - p\<bar> \<le> \<bar>x - p\<bar>" if xa: "x \<in> set a" for x
      proof -
        obtain i where i: "i < length a" "x = a ! i" using xa by (auto simp: in_set_conv_nth)
        have v1: "\<bar>v - p\<bar> \<le> \<bar>a ! j - p\<bar>" and v2: "\<bar>v - p\<bar> \<le> \<bar>a ! Suc j - p\<bar>"
          by (simp_all add: v_def)
        show ?thesis
        proof (cases "i < Suc j")
          case True
          then show ?thesis using lo [of i] v1 i(2) by simp
        next
          case False
          then show ?thesis using hi [of i] v2 i by simp
        qed
      qed
      then show ?thesis using r mem by simp
    next
      case False
      then have eq: "Suc j = length a" using kle Suc by simp
      have r: "find_closest (NdArray a) p = Inr (a ! j)"
        by (rule find_closest_beyond [OF sj eq])
      have mem: "a ! j \<in> set a" using eq by simp
      have "\<bar>a ! j - p\<bar> \<le> \<bar>x - p\<bar>" if xa: "x \<in> set a" for x
      proof -
        obtain i where i: "i < length a" "x = a ! i" using xa by (auto simp: in_set_conv_nth)
        then show ?thesis using lo [of i] eq by simp
      qed
      then show ?thesis using r mem by simp
    qed
  qed
qed

text \<open>
  Claim C1, as amended. For every non-empty sorted array of 64-bit integers and every
  pivot such that no difference between an element and the pivot leaves the 64-bit
  range, \<open>find_closest\<close> returns a value (it does not raise), the value is an element of
  the array, and no element of the array is nearer to the pivot. A pivot at or below the
  whole array gets the first element and a pivot at or above it the last one.
\<close>

theorem find_closest_nearest:
  assumes "sorted a" and "a \<noteq> []" and "no_overflow a p"
  shows "\<exists>v. find_closest (NdArray a) p = Inr v \<and> v \<in> set a \<and>
             (\<forall>x\<in>set a. \<bar>v - p\<bar> \<le> \<bar>x - p\<bar>) \<and>
             ((\<forall>x\<in>set a. p \<le> x) \<longrightarrow> v = hd a) \<and>
             ((\<forall>x\<in>set a. x \<le> p) \<longrightarrow> v = last a)"
proof -
  obtain v where v: "find_closest (NdArray a) p = Inr v" "v \<in> set a"
      "\<forall>x\<in>set a. \<bar>v - p\<bar> \<le> \<bar>x - p\<bar>"
    using find_closest_sorted [OF assms] by blast
  have first: "hd a \<in> set a" and final: "last a \<in> set a" using assms(2) by simp_all
  have lo: "hd a \<le> v" using assms(1,2) v(2) by (cases a) auto
  obtain i where i: "i < length a" "v = a ! i" using v(2) by (auto simp: in_set_conv_nth)
  have "a ! i \<le> a ! (length a - 1)" using assms(1) i(1) by (simp add: sorted_nth_mono)
  then have hi: "v \<le> last a" using i(2) assms(2) by (simp add: last_conv_nth)
  have below: "v = hd a" if h: "\<forall>x\<in>set a. p \<le> x"
  proof -
    have "\<bar>v - p\<bar> \<le> \<bar>hd a - p\<bar>" using v(3) first by blast
    moreover have "p \<le> v" "p \<le> hd a" using h v(2) first by blast+
    ultimately show ?thesis using lo by simp
  qed
  have above: "v = last a" if h: "\<forall>x\<in>set a. x \<le> p"
  proof -
    have "\<bar>v - p\<bar> \<le> \<bar>last a - p\<bar>" using v(3) final by blast
    moreover have "v \<le> p" "last a \<le> p" using h v(2) final by blast+
    ultimately show ?thesis using hi by simp
  qed
  show ?thesis using v below above by blast
qed

theorem find_closest_nearest_witness:
  "sorted [10, 20, 30 :: int] \<and> [10, 20, 30 :: int] \<noteq> [] \<and> no_overflow [10, 20, 30] 100 \<and>
   (\<exists>v. find_closest (NdArray [10, 20, 30]) 100 = Inr v \<and> v \<in> set [10, 20, 30] \<and>
        \<bar>v - 100\<bar> \<le> \<bar>10 - 100\<bar> \<and> \<bar>v - 100\<bar> \<le> \<bar>20 - 100\<bar> \<and> \<bar>v - 100\<bar> \<le> \<bar>30 - 100\<bar> \<and>
        v = last [10, 20, 30])"
proof -
  have h1: "sorted [10, 20, 30 :: int]" by simp
  have h2: "[10, 20, 30 :: int] \<noteq> []" by simp
  have h3: "no_overflow [10, 20, 30] 100" by (simp add: no_overflow_def)
  have h4: "\<forall>x\<in>set [10, 20, 30 :: int]. x \<le> 100" by simp
  obtain v where v: "find_closest (NdArray [10, 20, 30]) 100 = Inr v" "v \<in> set [10, 20, 30]"
      "\<forall>x\<in>set [10, 20, 30]. \<bar>v - 100\<bar> \<le> \<bar>x - 100\<bar>"
      "(\<forall>x\<in>set [10, 20, 30 :: int]. x \<le> 100) \<longrightarrow> v = last [10, 20, 30]"
    using find_closest_nearest [OF h1 h2 h3] by blast
  have "\<bar>v - 100\<bar> \<le> \<bar>10 - 100\<bar> \<and> \<bar>v - 100\<bar> \<le> \<bar>20 - 100\<bar> \<and> \<bar>v - 100\<bar> \<le> \<bar>30 - 100\<bar>"
    using v(3) by simp
  moreover have "v = last [10, 20, 30]" using v(4) h4 by blast
  ultimately show ?thesis using h1 h2 h3 v(1,2) by blast
qed

text \<open>
  Claim C1 as it is written covers every sorted array. On the sorted array
  \<open>[- 2^63, 5]\<close> and the pivot 0 the difference \<open>- 2^63 - 0\<close> has no absolute value in 64
  bits: numpy gives \<open>- 2^63\<close> for it, \<open>argmin\<close> takes it for the smaller distance, and
  \<open>find_closest\<close> returns \<open>- 2^63\<close> although 5 is nearer.
\<close>

theorem find_closest_overflow_counterexample:
  "sorted [- 9223372036854775808, 5 :: int] \<and>
   find_closest (NdArray [- 9223372036854775808, 5]) 0 = Inr (- 9223372036854775808) \<and>
   (5 :: int) \<in> set [- 9223372036854775808, 5] \<and>
   \<bar>5 - 0 :: int\<bar> < \<bar>- 9223372036854775808 - 0\<bar>"
proof -
  have "find_closest (NdArray [- 9223372036854775808, 5]) 0 = Inr (- 9223372036854775808)"
    by code_simp
  then show ?thesis by simp
qed

section \<open>The tolerance of closest\_within\_distance\<close>

text \<open>
  Claim C2, as amended. For every non-empty sorted array of 64-bit integers, every pivot
  such that no difference between an element and the pivot leaves the 64-bit range, and
  every \<open>max_dist\<close>, \<open>closest_within_distance\<close> returns (it does not raise); it returns
  \<open>None\<close> if and only if the distance from the pivot to its nearest element is greater
  than \<open>max_dist\<close>; and when that distance is exactly \<open>max_dist\<close> it returns the match.
\<close>

theorem closest_within_distance_inclusive:
  assumes "sorted a" and "a \<noteq> []" and "no_overflow a p"
  shows "(\<exists>r. closest_within_distance (NdArray a) p d = Inr r) \<and>
         (closest_within_distance (NdArray a) p d = Inr None \<longleftrightarrow> d < nearest_distance a p) \<and>
         (nearest_distance a p = d \<longrightarrow>
            (\<exists>v. closest_within_distance (NdArray a) p d = Inr (Some v) \<and> v \<in> set a \<and> \<bar>v - p\<bar> = d))"
proof -
  obtain v where v: "find_closest (NdArray a) p = Inr v" "v \<in> set a"
      "\<forall>x\<in>set a. \<bar>v - p\<bar> \<le> \<bar>x - p\<bar>"
    using find_closest_sorted [OF assms] by blast
  have nd: "nearest_distance a p = \<bar>v - p\<bar>" by (rule nearest_distanceI [OF v(2,3)])
  have "abs64 (sub64 v p) = \<bar>v - p\<bar>"
    using assms(3) v(2) by (simp add: no_overflow_def distance64_exact)
  then have r: "closest_within_distance (NdArray a) p d = Inr (if \<bar>v - p\<bar> \<le> d then Some v else None)"
    by (simp add: closest_within_distance_def v(1))
  show ?thesis using r nd v(2) by auto
qed

theorem closest_within_distance_inclusive_witness:
  "sorted [10, 20, 30 :: int] \<and> [10, 20, 30 :: int] \<noteq> [] \<and> no_overflow [10, 20, 30] 25 \<and>
   nearest_distance [10, 20, 30] 25 = 5 \<and>
   (\<exists>v. closest_within_distance (NdArray [10, 20, 30]) 25 5 = Inr (Some v) \<and>
        v \<in> set [10, 20, 30] \<and> \<bar>v - 25\<bar> = 5)"
proof -
  have h1: "sorted [10, 20, 30 :: int]" by simp
  have h2: "[10, 20, 30 :: int] \<noteq> []" by simp
  have h3: "no_overflow [10, 20, 30] 25" by (simp add: no_overflow_def)
  have h4: "nearest_distance [10, 20, 30] 25 = 5" by code_simp
  show ?thesis
    using h1 h2 h3 h4 closest_within_distance_inclusive [OF h1 h2 h3, of 5] by blast
qed

text \<open>
  Claim C2 as it is written: on \<open>[- 2^63, 5]\<close>, the pivot 0 and \<open>max_dist = 3\<close> the
  nearest element is 5 away, and \<open>closest_within_distance\<close> returns \<open>- 2^63\<close>, whose
  computed distance \<open>- 2^63\<close> is below 3.
\<close>

theorem closest_within_distance_overflow_counterexample:
  "sorted [- 9223372036854775808, 5 :: int] \<and>
   closest_within_distance (NdArray [- 9223372036854775808, 5]) 0 3
     = Inr (Some (- 9223372036854775808)) \<and>
   3 < nearest_distance [- 9223372036854775808, 5] 0"
proof -
  have "closest_within_distance (NdArray [- 9223372036854775808, 5]) 0 3
     = Inr (Some (- 9223372036854775808))"
    by code_simp
  moreover have "nearest_distance [- 9223372036854775808, 5] 0 = 5" by code_simp
  ultimately show ?thesis by simp
qed

section \<open>align\_arrays: length, order and independence of the entries\<close>

lemma nearest_distance_sort: "nearest_distance (sort xs) p = nearest_distance xs p"
  by (simp add: nearest_distance_def)

lemma no_overflow_sort: "no_overflow (sort xs) p = no_overflow xs p"
  by (simp add: no_overflow_def)

lemma align_one_total:
  assumes "a \<noteq> []"
  shows "\<exists>r. align_one (NdArray a) d p = Inr r \<and> (\<forall>v. r = Some v \<longrightarrow> v \<in> set a)"
proof -
  obtain v where v: "find_closest (NdArray a) p = Inr v" "v \<in> set a"
    using find_closest_total [OF assms] by blast
  show ?thesis
    using v by (cases d) (auto simp: align_one_def closest_within_distance_def)
qed

lemma align_one_sorted:
  assumes "sorted a" and "a \<noteq> []" and "no_overflow a p"
  shows "\<exists>r. align_one (NdArray a) d p = Inr r \<and>
           (\<forall>v. r = Some v \<longrightarrow> v \<in> set a \<and> (\<forall>x\<in>set a. \<bar>v - p\<bar> \<le> \<bar>x - p\<bar>)) \<and>
           (r = None \<longleftrightarrow> (\<exists>m. d = Some m \<and> m < nearest_distance a p))"
proof -
  obtain v where v: "find_closest (NdArray a) p = Inr v" "v \<in> set a"
      "\<forall>x\<in>set a. \<bar>v - p\<bar> \<le> \<bar>x - p\<bar>"
    using find_closest_sorted [OF assms] by blast
  have nd: "nearest_distance a p = \<bar>v - p\<bar>" by (rule nearest_distanceI [OF v(2,3)])
  have ex: "abs64 (sub64 v p) = \<bar>v - p\<bar>"
    using assms(3) v(2) by (simp add: no_overflow_def distance64_exact)
  show ?thesis
  proof (cases d)
    case None
    then show ?thesis using v by (simp add: align_one_def)
  next
    case (Some m)
    then show ?thesis using v nd ex by (auto simp: align_one_def closest_within_distance_def)
  qed
qed

lemma align_arrays_entries:
  assumes "contents S \<noteq> [] \<or> P = []"
  shows "\<exists>ys. align_arrays S (NdArray P) d = Inr ys \<and> length ys = length P \<and>
     (\<forall>i<length P. align_one (NdArray (sort (contents S))) d (P ! i) = Inr (ys ! i))"
proof (cases "P = []")
  case True
  then show ?thesis by (simp add: align_arrays_def)
next
  case False
  define a where "a = sort (contents S)"
  have "length a = length (contents S)" by (simp add: a_def)
  then have ne: "a \<noteq> []" using assms False by auto
  have all: "\<forall>p\<in>set P. \<exists>v. align_one (NdArray a) d p = Inr v"
    using align_one_total [OF ne] by blast
  obtain ys where ys: "align_loop (NdArray a) d (enumerate 0 P) (replicate (length P) None) = Inr ys"
      "length ys = length P"
      "\<forall>i<length P. align_one (NdArray a) d (P ! i) = Inr (ys ! i)"
    using align_loop_enumerate [OF all, of 0 "replicate (length P) None"] by auto
  have r: "align_arrays S (NdArray P) d = Inr ys"
    using ys(1) by (simp add: align_arrays_def np_sort_def a_def)
  show ?thesis using r ys(2,3) by (simp add: a_def)
qed

lemma align_arrays_members:
  assumes "align_arrays S (NdArray P) d = Inr ys" and "Some v \<in> set ys"
  shows "v \<in> set (contents S)"
proof -
  have len: "length ys = length P" by (rule align_arrays_length [OF assms(1)])
  then have "P \<noteq> []" using assms(2) by auto
  then have ne: "contents S \<noteq> []"
    using align_arrays_empty_search [of S P d] assms(1) by auto
  then have "contents S \<noteq> [] \<or> P = []" by simp
  then obtain zs where zs: "align_arrays S (NdArray P) d = Inr zs"
      "\<forall>i<length P. align_one (NdArray (sort (contents S))) d (P ! i) = Inr (zs ! i)"
    using align_arrays_entries by blast
  have eq: "zs = ys" using zs(1) assms(1) by simp
  obtain i where i: "i < length ys" "ys ! i = Some v"
    using assms(2) by (auto simp: in_set_conv_nth)
  define a where "a = sort (contents S)"
  have "length a = length (contents S)" by (simp add: a_def)
  then have "a \<noteq> []" using ne by auto
  then obtain r where r: "align_one (NdArray a) d (P ! i) = Inr r"
      "\<forall>v. r = Some v \<longrightarrow> v \<in> set a"
    using align_one_total by blast
  have "r = ys ! i" using zs(2) eq i(1) len r(1) by (simp add: a_def)
  then show ?thesis using r(2) i(2) by (simp add: a_def)
qed

text \<open>
  Claim C3, as amended. For every search array that is not empty (sorted or not, a numpy
  array or not), or when there is no pivot at all, and for every numpy array of pivots,
  \<open>align_arrays\<close> returns a sequence as long as the pivot array. Its \<open>i\<close>-th entry is
  what one lookup of the \<open>i\<close>-th pivot in the sorted copy of the search array gives, so
  it depends on no other pivot and the order is that of the pivots. For a pivot such
  that no difference between an element of the search array and the pivot leaves the
  64-bit range, an entry that is a value is an element of the search array that no other
  element beats in distance to the pivot, and the entry is \<open>None\<close> exactly when a
  \<open>max_dist\<close> is given and the nearest element is farther than it. With an empty search
  array and at least one pivot \<open>align_arrays\<close> raises \<open>IndexError\<close>.
\<close>

theorem align_arrays_pointwise:
  "(contents S \<noteq> [] \<or> P = [] \<longrightarrow>
      (\<exists>ys. align_arrays S (NdArray P) d = Inr ys \<and> length ys = length P \<and>
         (\<forall>i<length P. align_one (NdArray (sort (contents S))) d (P ! i) = Inr (ys ! i)) \<and>
         (\<forall>i<length P. no_overflow (contents S) (P ! i) \<longrightarrow>
            (\<forall>v. ys ! i = Some v \<longrightarrow>
               v \<in> set (contents S) \<and>
               (\<forall>x\<in>set (contents S). \<bar>v - P ! i\<bar> \<le> \<bar>x - P ! i\<bar>)) \<and>
            (ys ! i = None \<longleftrightarrow>
               (\<exists>m. d = Some m \<and> m < nearest_distance (contents S) (P ! i)))))) \<and>
   (contents S = [] \<and> P \<noteq> [] \<longrightarrow> align_arrays S (NdArray P) d = Inl IndexError)"
proof (intro conjI impI)
  assume h: "contents S \<noteq> [] \<or> P = []"
  obtain ys where ys: "align_arrays S (NdArray P) d = Inr ys" "length ys = length P"
      "\<forall>i<length P. align_one (NdArray (sort (contents S))) d (P ! i) = Inr (ys ! i)"
    using align_arrays_entries [OF h] by blast
  have props: "(\<forall>v. ys ! i = Some v \<longrightarrow>
               v \<in> set (contents S) \<and>
               (\<forall>x\<in>set (contents S). \<bar>v - P ! i\<bar> \<le> \<bar>x - P ! i\<bar>)) \<and>
            (ys ! i = None \<longleftrightarrow>
               (\<exists>m. d = Some m \<and> m < nearest_distance (contents S) (P ! i)))"
    if i: "i < length P" and no: "no_overflow (contents S) (P ! i)" for i
  proof -
    define a where "a = sort (contents S)"
    have "P \<noteq> []" using i by auto
    then have "contents S \<noteq> []" using h by simp
    moreover have "length a = length (contents S)" by (simp add: a_def)
    ultimately have ne: "a \<noteq> []" by auto
    have sa: "sorted a" by (simp add: a_def)
    have noa: "no_overflow a (P ! i)" using no by (simp add: a_def no_overflow_sort)
    have r: "align_one (NdArray a) d (P ! i) = Inr (ys ! i)" using ys(3) i by (simp add: a_def)
    show ?thesis
      using align_one_sorted [OF sa ne noa, of d] r
      by (simp add: a_def nearest_distance_sort)
  qed
  show "\<exists>ys. align_arrays S (NdArray P) d = Inr ys \<and> length ys = length P \<and>
         (\<forall>i<length P. align_one (NdArray (sort (contents S))) d (P ! i) = Inr (ys ! i)) \<and>
         (\<forall>i<length P. no_overflow (contents S) (P ! i) \<longrightarrow>
            (\<forall>v. ys ! i = Some v \<longrightarrow>
               v \<in> set (contents S) \<and>
               (\<forall>x\<in>set (contents S). \<bar>v - P ! i\<bar> \<le> \<bar>x - P ! i\<bar>)) \<and>
            (ys ! i = None \<longleftrightarrow>
               (\<exists>m. d = Some m \<and> m < nearest_distance (contents S) (P ! i))))"
  proof (intro exI conjI allI impI)
    show "align_arrays S (NdArray P) d = Inr ys" by (rule ys(1))
    show "length ys = length P" by (rule ys(2))
    show "align_one (NdArray (sort (contents S))) d (P ! i) = Inr (ys ! i)"
      if "i < length P" for i using ys(3) that by simp
    show "v \<in> set (contents S)"
      if "i < length P" "no_overflow (contents S) (P ! i)" "ys ! i = Some v" for i v
      using props [OF that(1,2)] that(3) by simp
    show "\<forall>x\<in>set (contents S). \<bar>v - P ! i\<bar> \<le> \<bar>x - P ! i\<bar>"
      if "i < length P" "no_overflow (contents S) (P ! i)" "ys ! i = Some v" for i v
      using props [OF that(1,2)] that(3) by simp
    show "ys ! i = None \<longleftrightarrow> (\<exists>m. d = Some m \<and> m < nearest_distance (contents S) (P ! i))"
      if "i < length P" "no_overflow (contents S) (P ! i)" for i
      using props [OF that(1,2)] by simp
  qed
next
  assume "contents S = [] \<and> P \<noteq> []"
  then show "align_arrays S (NdArray P) d = Inl IndexError"
    by (intro align_arrays_empty_search) simp_all
qed

theorem align_arrays_pointwise_witness:
  "contents (PyList [30, 10, 20]) \<noteq> [] \<and> 0 < length [11, 25 :: int] \<and>
   no_overflow (contents (PyList [30, 10, 20])) ([11, 25] ! 0) \<and>
   contents (NdArray []) = [] \<and> [5 :: int] \<noteq> [] \<and>
   (\<exists>ys v. align_arrays (PyList [30, 10, 20]) (NdArray [11, 25]) (Some 3) = Inr ys \<and>
         length ys = length [11, 25 :: int] \<and>
         align_one (NdArray (sort (contents (PyList [30, 10, 20])))) (Some 3) ([11, 25] ! 0)
           = Inr (ys ! 0) \<and>
         ys ! 0 = Some v \<and> v \<in> set (contents (PyList [30, 10, 20]))) \<and>
   align_arrays (NdArray []) (NdArray [5]) None = Inl IndexError"
proof -
  have h: "contents (PyList [30, 10, 20]) \<noteq> []" by simp
  then have h': "contents (PyList [30, 10, 20]) \<noteq> [] \<or> [11, 25 :: int] = []" by simp
  have l: "0 < length [11, 25 :: int]" by simp
  have n: "no_overflow (contents (PyList [30, 10, 20])) ([11, 25] ! 0)"
    by (simp add: no_overflow_def)
  have e: "contents (NdArray []) = [] \<and> [5 :: int] \<noteq> []" by simp
  obtain ys where ys: "align_arrays (PyList [30, 10, 20]) (NdArray [11, 25]) (Some 3) = Inr ys"
      "length ys = length [11, 25 :: int]"
      "\<forall>i<length [11, 25 :: int].
          align_one (NdArray (sort (contents (PyList [30, 10, 20])))) (Some 3) ([11, 25] ! i)
            = Inr (ys ! i)"
      "\<forall>i<length [11, 25 :: int]. no_overflow (contents (PyList [30, 10, 20])) ([11, 25] ! i) \<longrightarrow>
            (\<forall>v. ys ! i = Some v \<longrightarrow>
               v \<in> set (contents (PyList [30, 10, 20])) \<and>
               (\<forall>x\<in>set (contents (PyList [30, 10, 20])). \<bar>v - [11, 25] ! i\<bar> \<le> \<bar>x - [11, 25] ! i\<bar>)) \<and>
            (ys ! i = None \<longleftrightarrow>
               (\<exists>m. Some 3 = Some m \<and> m < nearest_distance (contents (PyList [30, 10, 20])) ([11, 25] ! i)))"
    using align_arrays_pointwise [of "PyList [30, 10, 20]" "[11, 25]" "Some 3"] h' by blast
  have one: "align_one (NdArray (sort (contents (PyList [30, 10, 20])))) (Some 3) ([11, 25] ! 0)
           = Inr (ys ! 0)"
    using ys(3) l by blast
  have "align_arrays (PyList [30, 10, 20]) (NdArray [11, 25]) (Some 3) = Inr [Some 10, None]"
    by code_simp
  then have "ys ! 0 = Some 10" using ys(1) by simp
  moreover have "\<forall>v. ys ! 0 = Some v \<longrightarrow> v \<in> set (contents (PyList [30, 10, 20]))"
    using ys(4) l n by blast
  ultimately have mem: "\<exists>v. ys ! 0 = Some v \<and> v \<in> set (contents (PyList [30, 10, 20]))"
    by blast
  have emp: "align_arrays (NdArray []) (NdArray [5]) None = Inl IndexError"
    using align_arrays_pointwise [of "NdArray []" "[5]" None] e by blast
  show ?thesis using h l n e ys(1,2) one mem emp by blast
qed

text \<open>
  Claim C3 as it is written covers an empty search array and every array of integers.
  With an empty search array the first lookup raises \<open>IndexError\<close> and \<open>align_arrays\<close>
  returns no sequence; and for the unsorted search array \<open>[5, - 2^63]\<close> and the pivot 0
  the entry is \<open>- 2^63\<close> although 5 is nearer.
\<close>

theorem align_arrays_counterexample:
  "align_arrays (NdArray []) (NdArray [5]) None = Inl IndexError \<and>
   align_arrays (NdArray [5, - 9223372036854775808]) (NdArray [0]) None
     = Inr [Some (- 9223372036854775808)] \<and>
   (5 :: int) \<in> set [5, - 9223372036854775808] \<and>
   \<bar>5 - 0 :: int\<bar> < \<bar>- 9223372036854775808 - 0\<bar>"
proof -
  have "align_arrays (NdArray []) (NdArray [5]) None = Inl IndexError" by code_simp
  moreover have "align_arrays (NdArray [5, - 9223372036854775808]) (NdArray [0]) None
     = Inr [Some (- 9223372036854775808)]" by code_simp
  ultimately show ?thesis by simp
qed

section \<open>Ties go to the earlier element\<close>

text \<open>
  Claim C4. On a sorted array, when the pivot is as far from the element before the
  left-insertion index as from the element at it, \<open>find_closest\<close> returns the element
  before, which is the smaller or equal one. And for the search array \<open>[10, 20, 30]\<close>
  and the pivots \<open>[5, 15, 25, 100]\<close> without \<open>max_dist\<close>, \<open>align_arrays\<close> returns
  \<open>[10, 10, 20, 30]\<close>.
\<close>

theorem find_closest_tie:
  "(sorted a \<and> 0 < searchsorted a p \<and> searchsorted a p < length a \<and>
    \<bar>a ! (searchsorted a p - 1) - p\<bar> = \<bar>a ! searchsorted a p - p\<bar>
    \<longrightarrow> find_closest (NdArray a) p = Inr (a ! (searchsorted a p - 1)) \<and>
        a ! (searchsorted a p - 1) \<le> a ! searchsorted a p) \<and>
   align_arrays (NdArray [10, 20, 30]) (NdArray [5, 15, 25, 100]) None
     = Inr [Some 10, Some 10, Some 20, Some 30]"
proof (intro conjI impI)
  assume h: "sorted a \<and> 0 < searchsorted a p \<and> searchsorted a p < length a \<and>
    \<bar>a ! (searchsorted a p - 1) - p\<bar> = \<bar>a ! searchsorted a p - p\<bar>"
  then obtain j where j: "searchsorted a p = Suc j" by (cases "searchsorted a p") auto
  have lt: "Suc j < length a" using h j by simp
  have "\<bar>a ! j - p\<bar> = \<bar>a ! Suc j - p\<bar>" using h j by simp
  then have "abs64 (sub64 (a ! j) p) = abs64 (sub64 (a ! Suc j) p)" by (rule distance64_tie)
  then show "find_closest (NdArray a) p = Inr (a ! (searchsorted a p - 1))"
    using find_closest_inner [OF j lt] j by simp
  show "a ! (searchsorted a p - 1) \<le> a ! searchsorted a p"
    using h j lt by (simp add: sorted_nth_mono)
next
  show "align_arrays (NdArray [10, 20, 30]) (NdArray [5, 15, 25, 100]) None
     = Inr [Some 10, Some 10, Some 20, Some 30]"
    by code_simp
qed

theorem find_closest_tie_witness:
  "sorted [10, 20, 30 :: int] \<and> 0 < searchsorted [10, 20, 30] 15 \<and>
   searchsorted [10, 20, 30] 15 < length [10, 20, 30 :: int] \<and>
   \<bar>[10, 20, 30 :: int] ! (searchsorted [10, 20, 30] 15 - 1) - 15\<bar>
     = \<bar>[10, 20, 30 :: int] ! searchsorted [10, 20, 30] 15 - 15\<bar> \<and>
   find_closest (NdArray [10, 20, 30]) 15 = Inr 10"
proof -
  have s: "searchsorted [10, 20, 30] 15 = 1" by code_simp
  have h: "sorted [10, 20, 30 :: int] \<and> 0 < searchsorted [10, 20, 30] 15 \<and>
    searchsorted [10, 20, 30] 15 < length [10, 20, 30 :: int] \<and>
    \<bar>[10, 20, 30 :: int] ! (searchsorted [10, 20, 30] 15 - 1) - 15\<bar>
      = \<bar>[10, 20, 30 :: int] ! searchsorted [10, 20, 30] 15 - 15\<bar>"
    by (simp add: s)
  have "find_closest (NdArray [10, 20, 30]) 15 = Inr ([10, 20, 30] ! (searchsorted [10, 20, 30] 15 - 1))"
    using find_closest_tie [of "[10, 20, 30]" 15] h by blast
  then show ?thesis using h by (simp add: s)
qed

section \<open>The passes of update\_table: auxiliary facts\<close>

lemma comprehension_nth:
  "comprehension f xs = Inr ys \<Longrightarrow>
   length ys = length xs \<and> (\<forall>i<length xs. f (xs ! i) = Inr (ys ! i))"
proof (induction xs arbitrary: ys)
  case Nil
  then show ?case by simp
next
  case (Cons x xs)
  from Cons.prems obtain y zs where y: "f x = Inr y" and zs: "comprehension f xs = Inr zs"
    and ys: "ys = y # zs"
    by (auto split: sum.splits)
  have ih: "length zs = length xs \<and> (\<forall>i<length xs. f (xs ! i) = Inr (zs ! i))"
    by (rule Cons.IH [OF zs])
  have "f ((x # xs) ! i) = Inr (ys ! i)" if "i < length (x # xs)" for i
    using that y ih ys by (cases i) auto
  then show ?case using ih ys by simp
qed

lemma filter_snd_zip:
  "length xs = length ys \<Longrightarrow>
   map snd (filter (\<lambda>(x, y). P y) (zip xs ys)) = filter P ys"
  by (induction xs ys rule: list_induct2) auto

lemma execute_all_fields:
  "execute_all c sql zs = Inr c' \<Longrightarrow>
   tables c' = tables c \<and> hdrtime c' = hdrtime c \<and> datasetinfo c' = datasetinfo c"
proof (induction zs arbitrary: c)
  case Nil
  then show ?case by simp
next
  case (Cons z zs)
  obtain k v where z: "z = (k, v)" by (cases z)
  from Cons.prems z obtain x where v: "v = [x]"
    and r: "execute_all (c\<lparr>executed := executed c @ [Execute sql x (strftime k)]\<rparr>) sql zs = Inr c'"
    by (auto split: list.splits)
  show ?case using Cons.IH [OF r] by simp
qed

lemma execute_all_executed:
  "execute_all c sql zs = Inr c' \<Longrightarrow>
   (\<forall>z\<in>set zs. \<exists>x. snd z = [x]) \<and>
   executed c' = executed c @ map (\<lambda>(dtime, value). Execute sql (hd value) (strftime dtime)) zs"
proof (induction zs arbitrary: c)
  case Nil
  then show ?case by simp
next
  case (Cons z zs)
  obtain k v where z: "z = (k, v)" by (cases z)
  from Cons.prems z obtain x where v: "v = [x]"
    and r: "execute_all (c\<lparr>executed := executed c @ [Execute sql x (strftime k)]\<rparr>) sql zs = Inr c'"
    by (auto split: list.splits)
  show ?case using Cons.IH [OF r] z v by simp
qed

lemma execute_all_isl:
  "isl (execute_all c sql zs) = isl (execute_all c2 sql zs)"
proof (induction zs arbitrary: c c2)
  case Nil
  then show ?case by simp
next
  case (Cons z zs)
  obtain k v where z: "z = (k, v)" by (cases z)
  show ?case using Cons.IH by (simp add: z split: list.splits)
qed

lemma get_hdrtimes_lengths:
  "get_hdrtimes_and_aligned_times cur eng_table date_range sub = Inr (hdrtimes, aligned) \<Longrightarrow>
   hdrtimes = hdrtime cur eng_table date_range \<and> length aligned = length hdrtimes"
  using align_arrays_length
  by (fastforce simp: get_hdrtimes_and_aligned_times_def Let_def split: if_splits sum.splits)

lemma aligned_in_search_array:
  assumes "get_hdrtimes_and_aligned_times cur eng_table date_range sub = Inr (hdrtimes, aligned)"
    and "Some v \<in> set aligned"
  shows "v \<in> fst ` set (rows sub)"
proof -
  have "align_arrays (NdArray (map fst (rows sub))) (NdArray (map (\<lambda>h. h + minutes 17) hdrtimes))
              (Some (minutes 20)) = Inr aligned"
    using assms(1)
    by (auto simp: get_hdrtimes_and_aligned_times_def Let_def split: if_splits sum.splits)
  then have "v \<in> set (contents (NdArray (map fst (rows sub))))"
    using assms(2) by (rule align_arrays_members)
  then show ?thesis by simp
qed

lemma truthy_not_None:
  assumes "get_hdrtimes_and_aligned_times cur eng_table date_range sub = Inr (hdrtimes, aligned)"
    and "0 \<notin> fst ` set (rows sub)"
    and "a \<in> set aligned"
  shows "truthy a = (a \<noteq> None)"
proof (cases a)
  case None
  then show ?thesis by simp
next
  case (Some v)
  then have "v \<in> fst ` set (rows sub)"
    using aligned_in_search_array [OF assms(1)] assms(3) by simp
  then have "v \<noteq> 0" using assms(2) by auto
  then show ?thesis using Some by simp
qed

lemma update_lists_Inr:
  assumes "update_lists cur data date_range eng_table p = Inr (keys, vals)"
  shows "\<exists>hdrtimes aligned.
           get_hdrtimes_and_aligned_times cur eng_table date_range (boolean_mask data p)
             = Inr (hdrtimes, aligned) \<and>
           length aligned = length hdrtimes \<and>
           keys = map fst (filter (\<lambda>(htime, atime). truthy atime) (zip hdrtimes aligned)) \<and>
           comprehension (\<lambda>dtime. series_loc (boolean_mask data p) p (the dtime))
                         (filter truthy aligned) = Inr vals"
proof -
  obtain hdrtimes aligned where g:
    "get_hdrtimes_and_aligned_times cur eng_table date_range (boolean_mask data p)
       = Inr (hdrtimes, aligned)"
    using assms by (auto simp: update_lists_def Let_def split: if_splits sum.splits)
  have k: "keys = map fst (filter (\<lambda>(htime, atime). truthy atime) (zip hdrtimes aligned))"
    and v: "comprehension (\<lambda>dtime. series_loc (boolean_mask data p) p (the dtime))
                         (filter truthy aligned) = Inr vals"
    using assms g
    by (auto simp: update_lists_def Let_def array_astype_float_def split: if_splits sum.splits)
  have "length aligned = length hdrtimes"
    using get_hdrtimes_lengths [OF g] by simp
  then show ?thesis using g k v by blast
qed

lemma update_lists_paired:
  assumes "update_lists cur data date_range eng_table p = Inr (keys, vals)"
  shows "length keys = length vals"
proof -
  obtain hdrtimes aligned where g: "length aligned = length hdrtimes"
      "keys = map fst (filter (\<lambda>(htime, atime). truthy atime) (zip hdrtimes aligned))"
      "comprehension (\<lambda>dtime. series_loc (boolean_mask data p) p (the dtime))
                         (filter truthy aligned) = Inr vals"
    using update_lists_Inr [OF assms] by blast
  have "length (map snd (filter (\<lambda>(htime, atime). truthy atime) (zip hdrtimes aligned)))
          = length (filter truthy aligned)"
    using filter_snd_zip [of hdrtimes aligned truthy] g(1) by simp
  then have "length keys = length (filter truthy aligned)" using g(2) by simp
  then show ?thesis using comprehension_nth [OF g(3)] by simp
qed

lemma update_unit_Inr:
  assumes "update_unit cur data date_range eng_table p = Inr cur'"
  shows "\<exists>keys vals column sql cur2.
           update_lists cur data date_range eng_table p = Inr (keys, vals) \<and>
           map_of parameter_mapping p = Some column \<and>
           generate_update_sql eng_table column = Inr sql \<and>
           run_update_sql cur sql keys vals = Inr cur2 \<and>
           cur' = commit cur2"
  using assms by (auto simp: update_unit_def split: sum.splits option.splits)

lemma truthy_pairs_matched:
  assumes "get_hdrtimes_and_aligned_times cur eng_table date_range sub = Inr (hdrtimes, aligned)"
    and "0 \<notin> fst ` set (rows sub)"
  shows "filter (\<lambda>(htime, atime). truthy atime) (zip hdrtimes aligned)
           = matched_pairs hdrtimes aligned"
  unfolding matched_pairs_def
proof (rule filter_cong [OF refl])
  fix z assume z: "z \<in> set (zip hdrtimes aligned)"
  obtain h a where ha: "z = (h, a)" by (cases z)
  then have "a \<in> set aligned" using z by (auto dest: set_zip_rightD)
  then have "truthy a = (a \<noteq> None)" by (rule truthy_not_None [OF assms])
  then show "(case z of (htime, atime) \<Rightarrow> truthy atime)
             = (case z of (htime, atime) \<Rightarrow> atime \<noteq> None)"
    by (simp add: ha)
qed

lemma unit_updates:
  assumes "update_unit cur data date_range eng_table p = Inr cur'"
    and "0 \<notin> fst ` set (rows data)"
  shows "\<exists>aligned sql payloads.
     get_hdrtimes_and_aligned_times cur eng_table date_range (boolean_mask data p)
       = Inr (hdrtime cur eng_table date_range, aligned) \<and>
     length aligned = length (hdrtime cur eng_table date_range) \<and>
     length payloads = length (matched_pairs (hdrtime cur eng_table date_range) aligned) \<and>
     (\<forall>i<length payloads.
        series_loc (boolean_mask data p) p
          (the (snd (matched_pairs (hdrtime cur eng_table date_range) aligned ! i)))
          = Inr [payloads ! i]) \<and>
     executed cur' = executed cur
        @ map (\<lambda>((htime, atime), value). Execute sql value (strftime htime))
              (zip (matched_pairs (hdrtime cur eng_table date_range) aligned) payloads)
        @ [Commit]"
proof -
  define sub where "sub = boolean_mask data p"
  obtain keys vals column sql cur2 where u:
      "update_lists cur data date_range eng_table p = Inr (keys, vals)"
      "run_update_sql cur sql keys vals = Inr cur2" "cur' = commit cur2"
    using update_unit_Inr [OF assms(1)] by blast
  obtain hdrtimes aligned where g:
      "get_hdrtimes_and_aligned_times cur eng_table date_range sub = Inr (hdrtimes, aligned)"
      "length aligned = length hdrtimes"
      "keys = map fst (filter (\<lambda>(htime, atime). truthy atime) (zip hdrtimes aligned))"
      "comprehension (\<lambda>dtime. series_loc sub p (the dtime)) (filter truthy aligned) = Inr vals"
    using update_lists_Inr [OF u(1)] unfolding sub_def by blast
  have h: "hdrtimes = hdrtime cur eng_table date_range"
    using get_hdrtimes_lengths [OF g(1)] by simp
  have z: "0 \<notin> fst ` set (rows sub)"
    using assms(2) by (auto simp: sub_def boolean_mask_def)
  define matched where "matched = matched_pairs hdrtimes aligned"
  have fm: "filter (\<lambda>(htime, atime). truthy atime) (zip hdrtimes aligned) = matched"
    using truthy_pairs_matched [OF g(1) z] by (simp add: matched_def)
  have keys: "keys = map fst matched" using g(3) fm by simp
  have "map snd (filter (\<lambda>(htime, atime). truthy atime) (zip hdrtimes aligned))
          = filter truthy aligned"
    using g(2) by (intro filter_snd_zip) simp
  then have ft: "filter truthy aligned = map snd matched" using fm by simp
  have lv: "length vals = length matched"
    using comprehension_nth [OF g(4)] ft by simp
  have loc: "series_loc sub p (the (snd (matched ! i))) = Inr (vals ! i)"
    if i: "i < length matched" for i
  proof -
    have "series_loc sub p (the (filter truthy aligned ! i)) = Inr (vals ! i)"
      using comprehension_nth [OF g(4)] i ft by simp
    then show ?thesis using ft i by simp
  qed
  have ex: "execute_all cur sql (zip keys vals) = Inr cur2"
    using u(2) by (simp add: run_update_sql_def)
  have single: "\<forall>z\<in>set (zip keys vals). \<exists>x. snd z = [x]"
    and log: "executed cur2 = executed cur
        @ map (\<lambda>(dtime, value). Execute sql (hd value) (strftime dtime)) (zip keys vals)"
    using execute_all_executed [OF ex] by simp_all
  define payloads where "payloads = map hd vals"
  have lpayloads: "length payloads = length matched" by (simp add: payloads_def lv)
  have one: "vals ! i = [payloads ! i]" if i: "i < length matched" for i
  proof -
    have "i < length (zip keys vals)" using i lv keys by simp
    then have "zip keys vals ! i \<in> set (zip keys vals)" by (rule nth_mem)
    then obtain x where "snd (zip keys vals ! i) = [x]" using single by blast
    then have "vals ! i = [x]" using i lv keys by simp
    then show ?thesis using i lv by (simp add: payloads_def)
  qed
  have "map (\<lambda>(dtime, value). Execute sql (hd value) (strftime dtime)) (zip keys vals)
        = map (\<lambda>((htime, atime), value). Execute sql value (strftime htime)) (zip matched payloads)"
    by (simp add: keys payloads_def zip_map1 zip_map2 case_prod_unfold)
  then have final: "executed cur' = executed cur
        @ map (\<lambda>((htime, atime), value). Execute sql value (strftime htime)) (zip matched payloads)
        @ [Commit]"
    using log by (simp add: u(3) commit_def)
  show ?thesis
  proof (intro exI conjI allI impI)
    show "get_hdrtimes_and_aligned_times cur eng_table date_range (boolean_mask data p)
       = Inr (hdrtime cur eng_table date_range, aligned)"
      using g(1) h by (simp add: sub_def)
    show "length aligned = length (hdrtime cur eng_table date_range)" using g(2) h by simp
    show "length payloads = length (matched_pairs (hdrtime cur eng_table date_range) aligned)"
      using lpayloads h by (simp add: matched_def)
    show "series_loc (boolean_mask data p) p
          (the (snd (matched_pairs (hdrtime cur eng_table date_range) aligned ! i)))
          = Inr [payloads ! i]" if "i < length payloads" for i
      using loc [of i] one [of i] that lpayloads h by (simp add: matched_def sub_def)
    show "executed cur' = executed cur
        @ map (\<lambda>((htime, atime), value). Execute sql value (strftime htime))
              (zip (matched_pairs (hdrtime cur eng_table date_range) aligned) payloads)
        @ [Commit]"
      using final h by (simp add: matched_def)
  qed
qed

lemma update_lists_same_store:
  assumes "tables cur = tables cur2" and "hdrtime cur = hdrtime cur2"
  shows "update_lists cur data date_range eng_table p
           = update_lists cur2 data date_range eng_table p"
  unfolding update_lists_def get_hdrtimes_and_aligned_times_def assms by (rule refl)

lemma update_unit_same_store:
  assumes "tables cur = tables cur2" and "hdrtime cur = hdrtime cur2"
  shows "isl (update_unit cur data date_range eng_table p)
           = isl (update_unit cur2 data date_range eng_table p)"
proof -
  have ul: "update_lists cur data date_range eng_table p
              = update_lists cur2 data date_range eng_table p"
    by (rule update_lists_same_store [OF assms])
  show ?thesis
  proof (cases "update_lists cur2 data date_range eng_table p")
    case (Inl e)
    then show ?thesis using ul by (simp add: update_unit_def)
  next
    case (Inr kv)
    obtain keys vals where kv: "kv = (keys, vals)" by (cases kv)
    show ?thesis
    proof (cases "map_of parameter_mapping p")
      case None
      then show ?thesis using ul Inr kv by (simp add: update_unit_def)
    next
      case (Some column)
      show ?thesis
      proof (cases "generate_update_sql eng_table column")
        case (Inl e)
        then show ?thesis using ul Inr kv Some by (simp add: update_unit_def)
      next
        case sql: (Inr sql)
        have "isl (update_unit c data date_range eng_table p)
                = isl (execute_all c sql (zip keys vals))"
          if "update_lists c data date_range eng_table p = Inr (keys, vals)" for c
          using that Some sql
          by (simp add: update_unit_def run_update_sql_def split: sum.splits)
        then show ?thesis
          using ul Inr kv execute_all_isl [of cur sql "zip keys vals" cur2] by simp
      qed
    qed
  qed
qed

lemma update_unit_fields:
  assumes "update_unit cur data date_range eng_table p = Inr cur'"
  shows "tables cur' = tables cur \<and> hdrtime cur' = hdrtime cur"
proof -
  obtain keys vals sql cur2 where
      "run_update_sql cur sql keys vals = Inr cur2" "cur' = commit cur2"
    using update_unit_Inr [OF assms] by blast
  then show ?thesis
    using execute_all_fields [of cur sql "zip keys vals" cur2]
    by (simp add: run_update_sql_def commit_def)
qed

lemma parameters_loop_fields:
  "parameters_loop cur data date_range eng_table ps = (r, cur') \<Longrightarrow>
   tables cur' = tables cur \<and> hdrtime cur' = hdrtime cur"
proof (induction ps arbitrary: cur)
  case Nil
  then show ?case by simp
next
  case (Cons p ps)
  show ?case
  proof (cases "update_unit cur data date_range eng_table p")
    case (Inl e)
    then show ?thesis using Cons.prems by simp
  next
    case (Inr c)
    then have "parameters_loop c data date_range eng_table ps = (r, cur')"
      using Cons.prems by simp
    then show ?thesis using Cons.IH update_unit_fields [OF Inr] by simp
  qed
qed

lemma parameters_loop_fails:
  "q \<in> set ps \<Longrightarrow> isl (update_unit cur data date_range eng_table q) \<Longrightarrow>
   fst (parameters_loop cur data date_range eng_table ps) \<noteq> None"
proof (induction ps arbitrary: cur)
  case Nil
  then show ?case by simp
next
  case (Cons p ps)
  show ?case
  proof (cases "update_unit cur data date_range eng_table p")
    case (Inl e)
    then show ?thesis by simp
  next
    case (Inr c)
    then have "q \<noteq> p" using Cons.prems(2) by auto
    then have q: "q \<in> set ps" using Cons.prems(1) by simp
    have "isl (update_unit c data date_range eng_table q)"
      using update_unit_same_store [of c cur data date_range eng_table q]
            update_unit_fields [OF Inr] Cons.prems(2) by simp
    then show ?thesis using Cons.IH [OF q] Inr by simp
  qed
qed

lemma tables_loop_fails:
  "t \<in> set ts \<Longrightarrow> q \<in> set ps \<Longrightarrow> isl (update_unit cur data date_range t q) \<Longrightarrow>
   fst (tables_loop cur data date_range ts ps) \<noteq> None"
proof (induction ts arbitrary: cur)
  case Nil
  then show ?case by simp
next
  case (Cons u ts)
  obtain r c where rc: "parameters_loop cur data date_range u ps = (r, c)"
    by (cases "parameters_loop cur data date_range u ps")
  show ?case
  proof (cases r)
    case (Some e)
    then show ?thesis using rc by simp
  next
    case None
    have "t \<noteq> u"
      using parameters_loop_fails [OF Cons.prems(2), of cur data date_range u] Cons.prems(3)
            rc None
      by auto
    then have t: "t \<in> set ts" using Cons.prems(1) by simp
    have "isl (update_unit c data date_range t q)"
      using update_unit_same_store [of c cur data date_range t q]
            parameters_loop_fields [OF rc] Cons.prems(3) by simp
    then show ?thesis using Cons.IH [OF t Cons.prems(2)] rc None by simp
  qed
qed

lemma update_table_fails:
  assumes "get_date_range data = Inr date_range"
    and "eng_table \<in> set (get_engineering_table_names (conn self) station_name date_range)"
    and "q \<in> set parameters"
    and "update_unit (conn self) data date_range eng_table q = Inl e"
  shows "\<exists>e'. fst (update_table self data station_name parameters flag) = Inl e'"
proof -
  have "fst (tables_loop (conn self) data date_range
               (get_engineering_table_names (conn self) station_name date_range) parameters)
          \<noteq> None"
    using assms(4) by (intro tables_loop_fails [OF assms(2,3)]) simp
  then show ?thesis
    using assms(1)
    by (auto simp: update_table_def Let_def split: prod.splits option.splits sum.splits)
qed

lemma update_unit_empty_rows:
  assumes "eng_table \<in> set (tables cur)" and "p \<in> set (columns data)"
    and "rows (boolean_mask data p) = []" and "hdrtime cur eng_table date_range \<noteq> []"
  shows "update_unit cur data date_range eng_table p = Inl IndexError"
proof -
  have "align_arrays (NdArray (map fst (rows (boolean_mask data p))))
          (NdArray (map (\<lambda>h. h + minutes 17) (hdrtime cur eng_table date_range)))
          (Some (minutes 20)) = Inl IndexError"
    using assms(3,4) by (intro align_arrays_empty_search) simp_all
  then have "get_hdrtimes_and_aligned_times cur eng_table date_range (boolean_mask data p)
               = Inl IndexError"
    using assms(1,4) by (simp add: get_hdrtimes_and_aligned_times_def Let_def)
  then show ?thesis
    using assms(2) by (simp add: update_unit_def update_lists_def Let_def)
qed

lemma update_table_ignores_testing:
  "update_table (self\<lparr>testing := b\<rparr>) data station_name parameters flag =
     (fst (update_table self data station_name parameters flag),
      (snd (update_table self data station_name parameters flag))\<lparr>testing := b\<rparr>)"
  by (simp add: update_table_def Let_def split: sum.splits prod.splits option.splits)

lemma second_missing_table_kept:
  "a \<notin> set (tables cur) \<Longrightarrow> test_for_eng_table_existence cur [a, b] = [b]"
  by (simp add: test_for_eng_table_existence_def existence_loop.simps [of cur "[a, b]"]
        existence_loop.simps [of cur "[b]"])

section \<open>The update for a header time keeps the header time\<close>


section \<open>Testing mode\<close>

text \<open>
  Claim C6 does not hold of the code: \<open>__init__\<close> stores \<open>testing\<close> and nothing reads
  it (see \<open>update_table_ignores_testing\<close>). With \<open>testing=True\<close>, and with either value
  of \<open>test_copy_upload\<close>, \<open>update_table\<close> on the store and the series above executes
  two update statements and commits.
\<close>

theorem testing_mode_still_updates:
  "testing \<lparr>conn = example_store, testing = True\<rparr> \<and>
   executed (conn (snd (update_table \<lparr>conn = example_store, testing = True\<rparr>
                          example_data ''SOFS'' [''sst''] False)))
     = [Execute ''UPDATE eng_0001_sofs_20200101 SET sst = %s, sstflag = 0 WHERE hdrtime = %s;''
                (Float 5.2) 6000,
        Execute ''UPDATE eng_0001_sofs_20200101 SET sst = %s, sstflag = 0 WHERE hdrtime = %s;''
                (Float 5.2) 6060,
        Commit] \<and>
   executed (conn (snd (update_table \<lparr>conn = example_store, testing = True\<rparr>
                          example_data ''SOFS'' [''sst''] True)))
     = [Execute ''UPDATE eng_0001_sofs_20200101 SET sst = %s, sstflag = 0 WHERE hdrtime = %s;''
                (Float 5.2) 6000,
        Execute ''UPDATE eng_0001_sofs_20200101 SET sst = %s, sstflag = 0 WHERE hdrtime = %s;''
                (Float 5.2) 6060,
        Commit]"
  by code_simp

section \<open>One update for each matched pair\<close>

text \<open>
  Claim C7, as amended. In every pass (one table, one parameter) that completes, on a
  sensor series of which no time stamp is the zero \<open>datetime64\<close>, the statements executed
  are, in the order of the header times, exactly one update for each matched pair, that
  is for each header time whose entry in the alignment result is not \<open>None\<close>, with the
  text of that header time as key and the value of the sensor sample the entry names,
  and then one commit. Nothing keeps two header times from being matched with the same
  sample.
\<close>

theorem one_update_per_matched_pair:
  assumes "update_unit cur data date_range eng_table p = Inr cur'"
    and "0 \<notin> fst ` set (rows data)"
  shows "\<exists>aligned sql payloads.
     get_hdrtimes_and_aligned_times cur eng_table date_range (boolean_mask data p)
       = Inr (hdrtime cur eng_table date_range, aligned) \<and>
     length aligned = length (hdrtime cur eng_table date_range) \<and>
     length payloads = length (matched_pairs (hdrtime cur eng_table date_range) aligned) \<and>
     (\<forall>i<length payloads.
        series_loc (boolean_mask data p) p
          (the (snd (matched_pairs (hdrtime cur eng_table date_range) aligned ! i)))
          = Inr [payloads ! i]) \<and>
     executed cur' = executed cur
        @ map (\<lambda>((htime, atime), value). Execute sql value (strftime htime))
              (zip (matched_pairs (hdrtime cur eng_table date_range) aligned) payloads)
        @ [Commit]"
  using assms by (rule unit_updates)

theorem one_update_per_matched_pair_witness:
  "update_unit example_store example_data (minutes 117, minutes 310)
       ''eng_0001_sofs_20200101'' ''sst''
     = Inr (projr (update_unit example_store example_data (minutes 117, minutes 310)
                     ''eng_0001_sofs_20200101'' ''sst'')) \<and>
   0 \<notin> fst ` set (rows example_data) \<and>
   (\<exists>aligned sql payloads.
      length payloads
        = length (matched_pairs (hdrtime example_store ''eng_0001_sofs_20200101''
                                   (minutes 117, minutes 310)) aligned) \<and>
      executed (projr (update_unit example_store example_data (minutes 117, minutes 310)
                         ''eng_0001_sofs_20200101'' ''sst''))
        = executed example_store
          @ map (\<lambda>((htime, atime), value). Execute sql value (strftime htime))
                (zip (matched_pairs (hdrtime example_store ''eng_0001_sofs_20200101''
                                       (minutes 117, minutes 310)) aligned) payloads)
          @ [Commit])"
proof -
  have "\<not> isl (update_unit example_store example_data (minutes 117, minutes 310)
                  ''eng_0001_sofs_20200101'' ''sst'')"
    by code_simp
  then have h: "update_unit example_store example_data (minutes 117, minutes 310)
       ''eng_0001_sofs_20200101'' ''sst''
     = Inr (projr (update_unit example_store example_data (minutes 117, minutes 310)
                     ''eng_0001_sofs_20200101'' ''sst''))"
    by simp
  have z: "0 \<notin> fst ` set (rows example_data)"
    by (simp add: example_data_def minutes_def)
  show ?thesis
    using h z one_update_per_matched_pair [OF h z] by blast
qed

text \<open>
  Claim C7 as it is written: the header times 100 and 101 minutes are both matched
  with the sample at 117 minutes, and both are updated with its value.
\<close>

theorem sensor_point_matched_twice_counterexample:
  "get_hdrtimes_and_aligned_times example_store ''eng_0001_sofs_20200101'' (0, 0)
       (boolean_mask example_data ''sst'')
     = Inr ([minutes 100, minutes 101, minutes 500],
            [Some (minutes 117), Some (minutes 117), None]) \<and>
   minutes 100 \<noteq> minutes 101 \<and>
   update_lists example_store example_data (0, 0) ''eng_0001_sofs_20200101'' ''sst''
     = Inr ([minutes 100, minutes 101], [[Float 5.2], [Float 5.2]])"
  by code_simp

section \<open>Tables that do not exist\<close>

text \<open>
  Claim C8 does not hold of the code: the loop of \<open>_test_for_eng_table_existence\<close>
  removes from the list it iterates, so the table after a removed one is never tested
  (see \<open>second_missing_table_kept\<close>). Of three resolved tables of which the first two do
  not exist, the second stays in the list, and \<open>update_table\<close> ends with the error of the
  store on its header time query.
\<close>

theorem missing_partition_kept:
  "get_engineering_table_names example_store_missing ''SOFS'' (minutes 117, minutes 310)
     = [''eng_0002_sofs_20200201'', ''eng_0003_sofs_20200301''] \<and>
   ''eng_0002_sofs_20200201'' \<notin> set (tables example_store_missing) \<and>
   fst (update_table \<lparr>conn = example_store_missing, testing = False\<rparr>
          example_data ''SOFS'' [''sst''] False) = Inl DatabaseError"
  by code_simp

section \<open>An alignment that fails\<close>

text \<open>
  Claim C9, as amended. \<open>find_closest\<close> raises \<open>AssertionError\<close> when the search array
  is not a numpy array and \<open>IndexError\<close> when it is an empty one; on every non-empty numpy
  array, sorted or not, it returns an element of the array. The failure is not caught:
  \<open>align_arrays\<close> on an empty search array and at least one pivot raises \<open>IndexError\<close>;
  a pass of \<open>update_table\<close> that has no valid row to search and at least one header time
  raises \<open>IndexError\<close>; and whenever the pass of any resolved table and any requested
  parameter raises, \<open>update_table\<close> raises and returns no metadata.
\<close>

theorem find_closest_failure_propagates:
  "find_closest (PyList xs) p = Inl AssertionError \<and>
   find_closest (NdArray []) p = Inl IndexError \<and>
   (a \<noteq> [] \<longrightarrow> (\<exists>v. find_closest (NdArray a) p = Inr v \<and> v \<in> set a)) \<and>
   (ps \<noteq> [] \<longrightarrow> align_arrays (NdArray []) (NdArray ps) max_dist = Inl IndexError) \<and>
   (eng_table \<in> set (tables (conn self)) \<and> q \<in> set (columns data) \<and>
    rows (boolean_mask data q) = [] \<and> hdrtime (conn self) eng_table date_range \<noteq> []
    \<longrightarrow> update_unit (conn self) data date_range eng_table q = Inl IndexError) \<and>
   (get_date_range data = Inr date_range \<and>
    eng_table \<in> set (get_engineering_table_names (conn self) station_name date_range) \<and>
    q \<in> set parameters \<and>
    update_unit (conn self) data date_range eng_table q = Inl e
    \<longrightarrow> (\<exists>e'. fst (update_table self data station_name parameters flag) = Inl e'))"
proof (intro conjI impI)
  show "find_closest (PyList xs) p = Inl AssertionError" by (simp add: find_closest_def)
  show "find_closest (NdArray []) p = Inl IndexError" by (rule find_closest_empty)
  show "\<exists>v. find_closest (NdArray a) p = Inr v \<and> v \<in> set a" if "a \<noteq> []"
    using that by (rule find_closest_total)
  show "align_arrays (NdArray []) (NdArray ps) max_dist = Inl IndexError" if "ps \<noteq> []"
    using that by (intro align_arrays_empty_search) simp_all
  show "update_unit (conn self) data date_range eng_table q = Inl IndexError"
    if "eng_table \<in> set (tables (conn self)) \<and> q \<in> set (columns data) \<and>
        rows (boolean_mask data q) = [] \<and> hdrtime (conn self) eng_table date_range \<noteq> []"
    using that by (intro update_unit_empty_rows) simp_all
  show "\<exists>e'. fst (update_table self data station_name parameters flag) = Inl e'"
    if "get_date_range data = Inr date_range \<and>
        eng_table \<in> set (get_engineering_table_names (conn self) station_name date_range) \<and>
        q \<in> set parameters \<and>
        update_unit (conn self) data date_range eng_table q = Inl e"
    using that update_table_fails [of data date_range eng_table self station_name q parameters e flag]
    by simp
qed

theorem find_closest_failure_propagates_witness:
  "[30, 10, 20 :: int] \<noteq> [] \<and> [5 :: int] \<noteq> [] \<and>
   ''eng_0001_sofs_20200101'' \<in> set (tables (conn \<lparr>conn = example_store, testing = False\<rparr>)) \<and>
   ''sss'' \<in> set (columns example_data) \<and>
   rows (boolean_mask example_data ''sss'') = [] \<and>
   hdrtime (conn \<lparr>conn = example_store, testing = False\<rparr>) ''eng_0001_sofs_20200101''
      (minutes 117, minutes 310) \<noteq> [] \<and>
   get_date_range example_data = Inr (minutes 117, minutes 310) \<and>
   ''eng_0001_sofs_20200101''
      \<in> set (get_engineering_table_names (conn \<lparr>conn = example_store, testing = False\<rparr>)
                ''SOFS'' (minutes 117, minutes 310)) \<and>
   ''sss'' \<in> set [''sst'', ''sss''] \<and>
   update_unit (conn \<lparr>conn = example_store, testing = False\<rparr>) example_data
      (minutes 117, minutes 310) ''eng_0001_sofs_20200101'' ''sss'' = Inl IndexError \<and>
   (\<exists>v. find_closest (NdArray [30, 10, 20]) 12 = Inr v \<and> v \<in> set [30, 10, 20]) \<and>
   align_arrays (NdArray []) (NdArray [5]) None = Inl IndexError \<and>
   (\<exists>e'. fst (update_table \<lparr>conn = example_store, testing = False\<rparr> example_data ''SOFS''
                [''sst'', ''sss''] False) = Inl e')"
proof -
  have h1: "[30, 10, 20 :: int] \<noteq> []" and h2: "[5 :: int] \<noteq> []" by simp_all
  have h3: "''eng_0001_sofs_20200101'' \<in> set (tables (conn \<lparr>conn = example_store, testing = False\<rparr>))"
    by (simp add: example_store_def)
  have h4: "''sss'' \<in> set (columns example_data)" by (simp add: example_data_def)
  have h5: "rows (boolean_mask example_data ''sss'') = []"
    by (simp add: boolean_mask_def example_data_def example_cells_def)
  have h6: "hdrtime (conn \<lparr>conn = example_store, testing = False\<rparr>) ''eng_0001_sofs_20200101''
      (minutes 117, minutes 310) \<noteq> []"
    by (simp add: example_store_def)
  have h7: "get_date_range example_data = Inr (minutes 117, minutes 310)" by code_simp
  have "get_engineering_table_names example_store ''SOFS''
      (minutes 117, minutes 310) = [''eng_0001_sofs_20200101'']" by code_simp
  then have h8: "''eng_0001_sofs_20200101''
      \<in> set (get_engineering_table_names (conn \<lparr>conn = example_store, testing = False\<rparr>)
                ''SOFS'' (minutes 117, minutes 310))" by simp
  have h9: "''sss'' \<in> set [''sst'', ''sss'']" by simp
  note t = find_closest_failure_propagates
     [of "[1]" 12 "[30, 10, 20]" "[5]" None "''eng_0001_sofs_20200101''"
         "\<lparr>conn = example_store, testing = False\<rparr>" "''sss''" example_data
         "(minutes 117, minutes 310)" "''SOFS''" "[''sst'', ''sss'']" IndexError False]
  have h10: "update_unit (conn \<lparr>conn = example_store, testing = False\<rparr>) example_data
      (minutes 117, minutes 310) ''eng_0001_sofs_20200101'' ''sss'' = Inl IndexError"
    using t h3 h4 h5 h6 by blast
  show ?thesis
    using h1 h2 h3 h4 h5 h6 h7 h8 h9 h10 t by blast
qed

text \<open>
  Claim C9 as it is written says the failure stays with the one alignment. With no
  valid salinity in the series, the pass for \<open>sss\<close> fails, and the pass for \<open>sst\<close>,
  which succeeds when it is asked for alone, is not run: nothing is executed.
\<close>

theorem alignment_failure_ends_pass_counterexample:
  "fst (update_table \<lparr>conn = example_store, testing = False\<rparr>
          example_data ''SOFS'' [''sss'', ''sst''] False) = Inl IndexError \<and>
   executed (conn (snd (update_table \<lparr>conn = example_store, testing = False\<rparr>
                          example_data ''SOFS'' [''sss'', ''sst''] False))) = [] \<and>
   \<not> isl (fst (update_table \<lparr>conn = example_store, testing = False\<rparr>
                  example_data ''SOFS'' [''sst''] False))"
  by code_simp

section \<open>Keys and values of a pass come in pairs\<close>


end
